theory Spec2Isabelle
  imports Main "HOL-Library.Monad_Syntax"
begin

section \<open>Python strings\<close>

text \<open>
  A Python \<open>str\<close> is a sequence of Unicode code points, so a string is a list of
  natural numbers and \<open>length\<close> is Python's \<open>len\<close>.  The euro sign is the single
  code point 8364, the newline 10, the comma 44, the full stop 46 and the bar 124.
\<close>

type_synonym pystr = "nat list"

definition ascii :: "string \<Rightarrow> pystr" where
  "ascii s = map of_char s"

text \<open>
  \<open>str.isspace\<close> for one code point; the regular expression class \<open>\s\<close> of a
  \<open>str\<close> pattern is the same set.
\<close>

definition is_space :: "nat \<Rightarrow> bool" where
  "is_space c \<longleftrightarrow> (9 \<le> c \<and> c \<le> 13) \<or> (28 \<le> c \<and> c \<le> 32) \<or> c = 133 \<or> c = 160
     \<or> c = 5760 \<or> (8192 \<le> c \<and> c \<le> 8202) \<or> c = 8232 \<or> c = 8233 \<or> c = 8239
     \<or> c = 8287 \<or> c = 12288"

text \<open>The class \<open>[A-Za-z0-9]\<close>.\<close>

definition alnum :: "nat \<Rightarrow> bool" where
  "alnum c \<longleftrightarrow> (65 \<le> c \<and> c \<le> 90) \<or> (97 \<le> c \<and> c \<le> 122) \<or> (48 \<le> c \<and> c \<le> 57)"

text \<open>
  The class \<open>\d\<close> of a \<open>str\<close> pattern is the set of decimal digits of the Unicode
  database of the running interpreter.  That table is not part of the repository: the
  functions below take it as the parameter \<open>dec\<close>.  \<open>ascii_digit\<close> is the part of
  it every version has, used to evaluate examples.
\<close>

definition ascii_digit :: "nat \<Rightarrow> bool" where
  "ascii_digit c \<longleftrightarrow> 48 \<le> c \<and> c \<le> 57"

text \<open>\<open>s.strip()\<close>, \<open>s.replace(',', '.')\<close>, \<open>t[i:j]\<close> for \<open>i \<le> j\<close>.\<close>

definition lstrip :: "pystr \<Rightarrow> pystr" where
  "lstrip s = dropWhile is_space s"

definition rstrip :: "pystr \<Rightarrow> pystr" where
  "rstrip s = rev (dropWhile is_space (rev s))"

definition strip :: "pystr \<Rightarrow> pystr" where
  "strip s = rstrip (lstrip s)"

definition replace_comma :: "pystr \<Rightarrow> pystr" where
  "replace_comma s = map (\<lambda>c. if c = 44 then 46 else c) s"

definition slice :: "pystr \<Rightarrow> nat \<Rightarrow> nat \<Rightarrow> pystr" where
  "slice t i j = take (j - i) (drop i t)"

section \<open>Backtracking regular expressions\<close>

text \<open>
  Python's \<open>re\<close> is a backtracking matcher.  A pattern element is modelled as a
  function from the text and a start offset to the list of end offsets it can reach, in
  the order in which the matcher tries them; sequencing is the bind of the list monad,
  and the match found at an offset is the head of the list.

  \<open>one_of p\<close> is a single character of class \<open>p\<close>, \<open>lit c\<close> the character \<open>c\<close>,
  \<open>greedy p lo\<close> the greedy repetition \<open>p{lo,}\<close> (longest first) and
  \<open>greedy_upto p lo hi\<close> the greedy \<open>p{lo,hi}\<close>.
\<close>

definition one_of :: "(nat \<Rightarrow> bool) \<Rightarrow> pystr \<Rightarrow> nat \<Rightarrow> nat list" where
  "one_of p t i = (if i < length t \<and> p (t ! i) then [Suc i] else [])"

definition lit :: "nat \<Rightarrow> pystr \<Rightarrow> nat \<Rightarrow> nat list" where
  "lit c = one_of (\<lambda>x. x = c)"

definition run_len :: "(nat \<Rightarrow> bool) \<Rightarrow> pystr \<Rightarrow> nat \<Rightarrow> nat" where
  "run_len p t i = length (takeWhile p (drop i t))"

definition greedy :: "(nat \<Rightarrow> bool) \<Rightarrow> nat \<Rightarrow> pystr \<Rightarrow> nat \<Rightarrow> nat list" where
  "greedy p lo t i = map (\<lambda>k. i + k) (rev [lo ..< Suc (run_len p t i)])"

definition greedy_upto :: "(nat \<Rightarrow> bool) \<Rightarrow> nat \<Rightarrow> nat \<Rightarrow> pystr \<Rightarrow> nat \<Rightarrow> nat list" where
  "greedy_upto p lo hi t i = map (\<lambda>k. i + k) (rev [lo ..< Suc (min hi (run_len p t i))])"

lemma one_of_end: "x \<in> set (one_of p t i) \<Longrightarrow> x = Suc i \<and> i < length t \<and> p (t ! i)"
  by (simp add: one_of_def split: if_splits)

lemma lit_end: "x \<in> set (lit c t i) \<Longrightarrow> x = Suc i \<and> i < length t \<and> t ! i = c"
  by (simp add: lit_def one_of_def split: if_splits)

lemma greedy_end: "x \<in> set (greedy p lo t i) \<Longrightarrow> i + lo \<le> x \<and> x \<le> i + run_len p t i"
  by (auto simp: greedy_def)

lemma greedy_upto_end:
  "x \<in> set (greedy_upto p lo hi t i) \<Longrightarrow> i + lo \<le> x \<and> x \<le> i + run_len p t i \<and> x \<le> i + hi"
  by (auto simp: greedy_upto_def)

section \<open>extract\_prices\_position.py\<close>

subsection \<open>The identifier and name pattern\<close>

text \<open>
  \<^verbatim>\<open>(?P<id>[A-Za-z0-9]+(?:\.[A-Za-z0-9]+)+)\s*\|\s*(?P<name>[^\n\u20ac]+)\<close>

  \<open>dot_segs\<close> is the greedy group \<open>(?:\.[A-Za-z0-9]+)+\<close>: after one more segment the
  matcher first tries a further segment and then to stop.  \<open>id_name_at t i\<close> lists the
  matches at offset \<open>i\<close> as (id, name, end offset).
\<close>

function dot_segs :: "pystr \<Rightarrow> nat \<Rightarrow> nat list" where
  "dot_segs t i = do { a \<leftarrow> lit 46 t i; b \<leftarrow> greedy alnum 1 t a; dot_segs t b @ [b] }"
  by pat_completeness auto
termination
  by (relation "measure (\<lambda>(t, i). length t - i)")
     (auto simp: lit_def one_of_def greedy_def split: if_splits)

declare dot_segs.simps [simp del]

definition name_char :: "nat \<Rightarrow> bool" where
  "name_char c \<longleftrightarrow> c \<noteq> 10 \<and> c \<noteq> 8364"

definition id_name_at :: "pystr \<Rightarrow> nat \<Rightarrow> (pystr \<times> pystr \<times> nat) list" where
  "id_name_at t i = do {
     a \<leftarrow> greedy alnum 1 t i;
     b \<leftarrow> dot_segs t a;
     c \<leftarrow> greedy is_space 0 t b;
     d \<leftarrow> lit 124 t c;
     e \<leftarrow> greedy is_space 0 t d;
     f \<leftarrow> greedy name_char 1 t e;
     [(slice t i b, slice t e f, f)] }"

lemma dot_segs_end: "x \<in> set (dot_segs t i) \<Longrightarrow> i < x"
proof (induction t i arbitrary: x rule: dot_segs.induct)
  case (1 t i)
  from "1.prems" obtain a b where a: "a \<in> set (lit 46 t i)"
    and b: "b \<in> set (greedy alnum 1 t a)" and x: "x \<in> set (dot_segs t b) \<or> x = b"
    by (subst (asm) dot_segs.simps) (auto simp: set_list_bind)
  from a have "a = Suc i" by (simp add: lit_end)
  moreover from b have "a < b" by (auto dest: greedy_end)
  moreover from x a b have "b \<le> x" using "1.IH" [OF a b] by (auto simp: less_imp_le)
  ultimately show ?case by simp
qed

lemma id_name_at_end: "(pid, name, e) \<in> set (id_name_at t i) \<Longrightarrow> i < e"
  by (fastforce simp: id_name_at_def set_list_bind dest!: greedy_end dot_segs_end lit_end)

text \<open>
  \<open>re.finditer\<close>: scan the offsets from left to right, keep the first match at the
  first offset that has one, and go on from its end (no match here is empty).
\<close>

function find_id_names :: "pystr \<Rightarrow> nat \<Rightarrow> (pystr \<times> pystr) list" where
  "find_id_names t pos =
     (if length t < pos then []
      else case id_name_at t pos of
             [] \<Rightarrow> find_id_names t (Suc pos)
           | (pid, name, e) # _ \<Rightarrow> (pid, name) # find_id_names t e)"
  by pat_completeness auto
termination
proof (relation "measure (\<lambda>(t, pos). Suc (length t) - pos)", goal_cases)
  case 1
  show ?case by simp
next
  case (2 t pos)
  then show ?case by simp
next
  case (3 t pos m ms pid rest name e)
  then have "(pid, name, e) \<in> set (id_name_at t pos)" by simp
  then have "pos < e" by (rule id_name_at_end)
  with 3 show ?case by simp
qed

declare find_id_names.simps [simp del]

definition id_name_matches :: "pystr \<Rightarrow> (pystr \<times> pystr) list" where
  "id_name_matches text = find_id_names text 0"

subsection \<open>The price pattern\<close>

text \<open>
  \<^verbatim>\<open>\u20ac\s*(?P<price>\d+[\.,]\d{1,2})\<close>

  \<open>price_at dec t i\<close> lists the matches at offset \<open>i\<close> as (price, end offset).
\<close>

definition price_at :: "(nat \<Rightarrow> bool) \<Rightarrow> pystr \<Rightarrow> nat \<Rightarrow> (pystr \<times> nat) list" where
  "price_at dec t i = do {
     a \<leftarrow> lit 8364 t i;
     b \<leftarrow> greedy is_space 0 t a;
     c \<leftarrow> greedy dec 1 t b;
     d \<leftarrow> one_of (\<lambda>x. x = 46 \<or> x = 44) t c;
     e \<leftarrow> greedy_upto dec 1 2 t d;
     [(slice t b e, e)] }"

lemma price_at_end: "(price, e) \<in> set (price_at dec t i) \<Longrightarrow> i < e"
  by (fastforce simp: price_at_def set_list_bind
      dest!: greedy_end greedy_upto_end one_of_end lit_end)

function find_prices :: "(nat \<Rightarrow> bool) \<Rightarrow> pystr \<Rightarrow> nat \<Rightarrow> pystr list" where
  "find_prices dec t pos =
     (if length t < pos then []
      else case price_at dec t pos of
             [] \<Rightarrow> find_prices dec t (Suc pos)
           | (price, e) # _ \<Rightarrow> price # find_prices dec t e)"
  by pat_completeness auto
termination
proof (relation "measure (\<lambda>(dec, t, pos). Suc (length t) - pos)", goal_cases)
  case 1
  show ?case by simp
next
  case (2 dec t pos)
  then show ?case by simp
next
  case (3 dec t pos m ms price e)
  then have "(price, e) \<in> set (price_at dec t pos)" by simp
  then have "pos < e" by (rule price_at_end)
  with 3 show ?case by simp
qed

declare find_prices.simps [simp del]

definition price_matches :: "(nat \<Rightarrow> bool) \<Rightarrow> pystr \<Rightarrow> pystr list" where
  "price_matches dec text = find_prices dec text 0"

subsection \<open>extract\_product\_data\<close>

text \<open>
  The dictionary appended for each identifier match has the four keys \<open>Page\<close>,
  \<open>ID\<close>, \<open>Name\<close> and \<open>Price\<close>.
\<close>

record product =
  Page :: nat
  ID :: pystr
  Name :: pystr
  Price :: pystr

definition not_found :: pystr where
  "not_found = ascii ''Not found''"

text \<open>
  The body of the inner loop for index \<open>i\<close>: the price of the same index, with the
  comma replaced, or the sentinel; the euro sign is put in front unless the value is
  the sentinel.
\<close>

definition price_field :: "pystr list \<Rightarrow> nat \<Rightarrow> pystr" where
  "price_field prices i =
     (let price = (if i < length prices then replace_comma (prices ! i) else not_found)
      in if price \<noteq> not_found then 8364 # price else price)"

definition page_records :: "(nat \<Rightarrow> bool) \<Rightarrow> nat \<Rightarrow> pystr \<Rightarrow> product list" where
  "page_records dec page_num text =
     (let ids = id_name_matches text; prices = price_matches dec text
      in map (\<lambda>(i, (pid, name)).
                \<lparr>Page = page_num, ID = pid, Name = strip name, Price = price_field prices i\<rparr>)
           (enumerate 0 ids))"

text \<open>
  \<open>page.get_text()\<close> belongs to the PDF library.  A page is what that call gives:
  the text, or the exception it raises (\<open>Library_error\<close>).  Nothing in the function
  catches it, so the loop over the pages stops there and the exception leaves the
  function.  \<open>Key_error\<close> and \<open>Attribute_error\<close> are Python's own.
\<close>

datatype error = Library_error | Key_error | Attribute_error

type_synonym text_page = "error + pystr"

fun pages_loop :: "(nat \<Rightarrow> bool) \<Rightarrow> nat \<Rightarrow> text_page list \<Rightarrow> product list \<Rightarrow> error + product list" where
  "pages_loop dec page_num [] product_data = Inr product_data"
| "pages_loop dec page_num (Inl e # pages) product_data = Inl e"
| "pages_loop dec page_num (Inr text # pages) product_data =
     pages_loop dec (Suc page_num) pages (product_data @ page_records dec page_num text)"

text \<open>
  A call opens the document and returns (or raises); \<open>handle_closed\<close> tells whether
  \<open>doc.close()\<close> has been run when the call ends.  \<open>extract_product_data\<close> has no
  such statement.
\<close>

record 'a call =
  handle_closed :: bool
  outcome :: "error + 'a"

definition extract_product_data :: "(nat \<Rightarrow> bool) \<Rightarrow> text_page list \<Rightarrow> product list call" where
  "extract_product_data dec doc = \<lparr>handle_closed = False, outcome = pages_loop dec 1 doc []\<rparr>"

subsection \<open>clean\_product\_name and the script body\<close>

text \<open>
  \<open>re.sub(r'\s+', ' ', name)\<close> puts one space for every maximal run of whitespace.
  \<open>re.sub(r'\s*\n\s*', ' ', name)\<close>: at an offset the pattern matches when the run of
  whitespace starting there holds a newline (the first \<open>\s*\<close> gives characters back
  up to the last newline of the run, the second takes the rest), and the match is the
  whole run; a run without a newline stays.
\<close>

function collapse_spaces :: "pystr \<Rightarrow> pystr" where
  "collapse_spaces [] = []"
| "collapse_spaces (c # cs) =
     (if is_space c then 32 # collapse_spaces (dropWhile is_space cs)
      else c # collapse_spaces cs)"
  by pat_completeness auto
termination
  by (relation "measure length") (auto simp: less_Suc_eq_le length_dropWhile_le)

function join_lines :: "pystr \<Rightarrow> pystr" where
  "join_lines [] = []"
| "join_lines (c # cs) =
     (if is_space c
      then (if 10 \<in> set (c # takeWhile is_space cs)
            then 32 # join_lines (dropWhile is_space cs)
            else c # takeWhile is_space cs @ join_lines (dropWhile is_space cs))
      else c # join_lines cs)"
  by pat_completeness auto
termination
  by (relation "measure length") (auto simp: less_Suc_eq_le length_dropWhile_le)

definition clean_product_name :: "pystr \<Rightarrow> pystr" where
  "clean_product_name name = strip (join_lines (collapse_spaces name))"

definition cleaned_products :: "product list \<Rightarrow> product list" where
  "cleaned_products products =
     map (\<lambda>p. p\<lparr>Name := clean_product_name (Name p)\<rparr>)
       (filter (\<lambda>p. 3 < length (strip (Name p))) products)"

text \<open>
  What the script prints and writes after the extraction, in order: the heading, the
  first fifty rows, the CSV file with all rows, the total and the closing line.  The
  writing of the file is taken to succeed.
\<close>

datatype script_output =
  Print_heading
  | Print_row product
  | Write_csv pystr "product list"
  | Print_total nat
  | Print_saved

definition script :: "(nat \<Rightarrow> bool) \<Rightarrow> text_page list \<Rightarrow> error + script_output list" where
  "script dec doc =
     (case outcome (extract_product_data dec doc) of
        Inl e \<Rightarrow> Inl e
      | Inr products \<Rightarrow>
          (let cleaned = cleaned_products products
           in Inr ([Print_heading] @ map Print_row (take 50 cleaned) @
                   [Write_csv (ascii ''product_prices_accurate.csv'') cleaned,
                    Print_total (length cleaned), Print_saved])))"

section \<open>extract\_product\_info.py\<close>

subsection \<open>parse\_product\_text\<close>

text \<open>
  The price pattern of this script is \<^verbatim>\<open>\u20ac\s*(\d+(?:[,.-]\d+)*)\<close>.
  \<open>sep_groups\<close> is the greedy group \<open>(?:[,.-]\d+)*\<close>; \<open>amount_at dec t i\<close> lists
  what group 1 can be for a match at offset \<open>i\<close>, and \<open>search_amount\<close> is
  \<open>re.search\<close>: the first match at the first offset that has one.
\<close>

function sep_groups :: "(nat \<Rightarrow> bool) \<Rightarrow> pystr \<Rightarrow> nat \<Rightarrow> nat list" where
  "sep_groups dec t i =
     (do { a \<leftarrow> one_of (\<lambda>x. x = 44 \<or> x = 46 \<or> x = 45) t i;
           b \<leftarrow> greedy dec 1 t a;
           sep_groups dec t b }) @ [i]"
  by pat_completeness auto
termination
  by (relation "measure (\<lambda>(dec, t, i). length t - i)")
     (auto simp: one_of_def greedy_def split: if_splits)

declare sep_groups.simps [simp del]

definition amount_at :: "(nat \<Rightarrow> bool) \<Rightarrow> pystr \<Rightarrow> nat \<Rightarrow> pystr list" where
  "amount_at dec t i = do {
     a \<leftarrow> lit 8364 t i;
     b \<leftarrow> greedy is_space 0 t a;
     c \<leftarrow> greedy dec 1 t b;
     d \<leftarrow> sep_groups dec t c;
     [slice t b d] }"

definition search_amount :: "(nat \<Rightarrow> bool) \<Rightarrow> pystr \<Rightarrow> pystr option" where
  "search_amount dec t =
     (case List.bind [0 ..< Suc (length t)] (amount_at dec t) of
        [] \<Rightarrow> None
      | m # _ \<Rightarrow> Some m)"

text \<open>
  The dictionary returned by \<open>parse_product_text\<close>.  Its keys \<open>name\<close>,
  \<open>description\<close> and \<open>sizes\<close> are left out: they are computed by regular
  expression calls on \<open>rest_text\<close> that raise nothing and that no other key depends
  on.  The function returns \<open>None\<close> exactly when the chunk has no bar.

  \<open>text.split('|', 1)\<close> gives the part before the first bar and the part after it;
  \<open>re.sub(r'^[\.\s]+', '', id_part)\<close> removes the leading full stops and whitespace.
\<close>

record info =
  info_page :: nat
  info_id :: pystr
  info_price :: pystr
  info_full_text :: pystr

definition parse_product_text :: "(nat \<Rightarrow> bool) \<Rightarrow> pystr \<Rightarrow> nat \<Rightarrow> info option" where
  "parse_product_text dec text_chunk page_num =
     (if 124 \<notin> set text_chunk then None
      else
        let id_part = strip (takeWhile (\<lambda>c. c \<noteq> 124) text_chunk);
            rest_text = strip (drop 1 (dropWhile (\<lambda>c. c \<noteq> 124) text_chunk));
            product_id = strip (dropWhile (\<lambda>c. c = 46 \<or> is_space c) id_part);
            price = (case search_amount dec rest_text of Some g \<Rightarrow> g | None \<Rightarrow> [])
        in Some \<lparr>info_page = page_num, info_id = product_id, info_price = price,
                  info_full_text = take 500 text_chunk\<rparr>)"

subsection \<open>extract\_product\_text\_data\<close>

text \<open>
  The pattern is an argument of the function.  \<open>pat text\<close> stands for
  \<open>re.finditer(pattern, text, re.MULTILINE | re.DOTALL)\<close>: the start offsets of its
  matches, in order.  \<open>line_pattern\<close> is the custom pattern \<^verbatim>\<open>^\<close>, which with
  \<open>re.MULTILINE\<close> matches at the start of the text and after every newline; it is
  used to evaluate examples.
\<close>

definition line_pattern :: "pystr \<Rightarrow> nat list" where
  "line_pattern text = filter (\<lambda>i. i = 0 \<or> text ! (i - 1) = 10) [0 ..< Suc (length text)]"

datatype text_output =
  Print_found info
  | Print_page_count nat nat
  | Print_total_found nat
  | Write_product_csv "info list"
  | Print_csv_saved
  | Print_no_products

record text_state =
  extracted_products :: "info list"
  total_found :: nat
  printed :: "text_output list"

text \<open>
  The loop over the matches of one page; \<open>page_products\<close> counts the records of the
  page.  The chunk is \<open>text_content[match_start:match_start + 1000]\<close>.
\<close>

fun matches_loop ::
  "(nat \<Rightarrow> bool) \<Rightarrow> nat \<Rightarrow> pystr \<Rightarrow> nat list \<Rightarrow> text_state \<times> nat \<Rightarrow> text_state \<times> nat" where
  "matches_loop dec page_num text_content [] (st, page_products) = (st, page_products)"
| "matches_loop dec page_num text_content (match_start # starts) (st, page_products) =
     (case parse_product_text dec (take 1000 (drop match_start text_content)) (page_num + 1) of
        None \<Rightarrow> matches_loop dec page_num text_content starts (st, page_products)
      | Some product_data \<Rightarrow>
          matches_loop dec page_num text_content starts
            (\<lparr>extracted_products = extracted_products st @ [product_data],
              total_found = total_found st + 1,
              printed = printed st @ [Print_found product_data]\<rparr>,
             page_products + 1))"

definition text_page_step ::
  "(pystr \<Rightarrow> nat list) \<Rightarrow> (nat \<Rightarrow> bool) \<Rightarrow> nat \<Rightarrow> pystr \<Rightarrow> text_state \<Rightarrow> text_state" where
  "text_page_step pat dec page_num text_content st =
     (case matches_loop dec page_num text_content (pat text_content) (st, 0) of
        (st', page_products) \<Rightarrow>
          (if 0 < page_products
           then st'\<lparr>printed := printed st' @ [Print_page_count (page_num + 1) page_products]\<rparr>
           else st'))"

text \<open>
  The loop over the pages.  An exception of \<open>page.get_text()\<close> is not caught: the
  loop ends there with what has been printed so far.
\<close>

fun text_pages_loop ::
  "(pystr \<Rightarrow> nat list) \<Rightarrow> (nat \<Rightarrow> bool) \<Rightarrow> nat \<Rightarrow> text_page list \<Rightarrow> text_state
     \<Rightarrow> error option \<times> text_state" where
  "text_pages_loop pat dec page_num [] st = (None, st)"
| "text_pages_loop pat dec page_num (Inl e # pages) st = (Some e, st)"
| "text_pages_loop pat dec page_num (Inr text_content # pages) st =
     text_pages_loop pat dec (Suc page_num) pages (text_page_step pat dec page_num text_content st)"

text \<open>
  The whole call: the pages, the total, then the CSV file when the list of records is
  not empty and the warning otherwise, and \<open>doc.close()\<close> as the last statement.
  \<open>effects\<close> is what the call has printed and written when it ends.  Creating the
  output folder and writing the file are taken to succeed and the folder is not listed
  among the effects.  The \<open>except\<close> branch around the parsing of a match is not
  modelled: \<open>parse_product_text\<close> catches its own exceptions and nothing else in
  the \<open>try\<close> block raises.
\<close>

record 'a logged_call = "'a call" +
  effects :: "text_output list"

definition extract_product_text_data ::
  "(pystr \<Rightarrow> nat list) \<Rightarrow> (nat \<Rightarrow> bool) \<Rightarrow> text_page list \<Rightarrow> unit logged_call" where
  "extract_product_text_data pat dec doc =
     (case text_pages_loop pat dec 0 doc \<lparr>extracted_products = [], total_found = 0, printed = []\<rparr> of
        (Some e, st) \<Rightarrow> \<lparr>handle_closed = False, outcome = Inl e, effects = printed st\<rparr>
      | (None, st) \<Rightarrow>
          \<lparr>handle_closed = True, outcome = Inr (),
            effects = printed st @ [Print_total_found (total_found st)] @
              (if extracted_products st \<noteq> []
               then [Write_product_csv (extracted_products st), Print_csv_saved]
               else [Print_no_products])\<rparr>)"

section \<open>scrape\_pdf\_images.py\<close>

text \<open>
  Page coordinates are floating point numbers.  The functions below use of them only
  subtraction, the absolute value, the order and the two numerals of the source, so the
  type of coordinates is left open: what is proved holds for every reading of these
  operations.

  A text block is a tuple; one with fewer than five entries is passed over, the others
  start with the four coordinates and the text.
\<close>

record 'a rect =
  x0 :: 'a
  y0 :: 'a
  x1 :: 'a
  y1 :: 'a

datatype 'a block = Short_block | Block 'a 'a 'a 'a pystr

text \<open>The test of a text rectangle against an image rectangle, as the source writes it.\<close>

definition below_and_near :: "('a :: {minus, abs, ord, numeral}) rect \<Rightarrow> 'a rect \<Rightarrow> bool" where
  "below_and_near img_rect text_rect \<longleftrightarrow>
     y0 text_rect > y1 img_rect \<and>
     \<bar>x0 text_rect - x0 img_rect\<bar> < 100 \<and>
     y0 text_rect - y1 img_rect < 50"

text \<open>
  The first loop over the blocks sets \<open>matching_text_found\<close> and stops at the first
  block that passes the test and whose stripped text has a match of the pattern
  (\<open>pat s\<close> stands for \<open>re.search(pattern, s)\<close> finding one); the second loop, run
  after the image is saved, keeps the text of that block.
\<close>

fun matching_text_found ::
  "(pystr \<Rightarrow> bool) \<Rightarrow> ('a :: {minus, abs, ord, numeral}) rect \<Rightarrow> 'a block list \<Rightarrow> bool" where
  "matching_text_found pat img_rect [] = False"
| "matching_text_found pat img_rect (Short_block # blocks) =
     matching_text_found pat img_rect blocks"
| "matching_text_found pat img_rect (Block a b c d s # blocks) =
     (let text_rect = \<lparr>x0 = a, y0 = b, x1 = c, y1 = d\<rparr>; text_content = strip s
      in if below_and_near img_rect text_rect \<and> pat text_content then True
         else matching_text_found pat img_rect blocks)"

fun matching_text ::
  "(pystr \<Rightarrow> bool) \<Rightarrow> ('a :: {minus, abs, ord, numeral}) rect \<Rightarrow> 'a block list \<Rightarrow> pystr" where
  "matching_text pat img_rect [] = []"
| "matching_text pat img_rect (Short_block # blocks) = matching_text pat img_rect blocks"
| "matching_text pat img_rect (Block a b c d s # blocks) =
     (let text_rect = \<lparr>x0 = a, y0 = b, x1 = c, y1 = d\<rparr>; text_content = strip s
      in if below_and_near img_rect text_rect \<and> pat text_content then text_content
         else matching_text pat img_rect blocks)"

text \<open>
  An image of a page: its rectangles on the page, the pixmap \<open>fitz.Pixmap(doc, xref)\<close>
  and the pixmap \<open>fitz.Pixmap(fitz.csRGB, pix)\<close>, each of which the library may
  refuse with an exception.  \<open>colorspace_n\<close> is \<open>pix.colorspace.n\<close>, absent when the
  pixmap has no colorspace.
\<close>

record pixmap =
  colorspace_n :: "nat option"
  pix_width :: int
  pix_height :: int

record 'a image =
  image_rects :: "'a rect list"
  pixmap :: "error + pixmap"
  rgb_pixmap :: "error + pixmap"

definition load_pixmap :: "'a image \<Rightarrow> error + pixmap" where
  "load_pixmap img =
     (case pixmap img of
        Inl e \<Rightarrow> Inl e
      | Inr pix \<Rightarrow>
          (case colorspace_n pix of
             None \<Rightarrow> Inl Attribute_error
           | Some n \<Rightarrow>
               if n \<noteq> 1 \<and> n \<noteq> 3
               then (case rgb_pixmap img of Inl e \<Rightarrow> Inl e | Inr rgb \<Rightarrow> Inr rgb)
               else Inr pix))"

fun str_nat :: "nat \<Rightarrow> pystr" where
  "str_nat n = (if n < 10 then [48 + n] else str_nat (n div 10) @ [48 + n mod 10])"

declare str_nat.simps [simp del]

definition image_filename :: "nat \<Rightarrow> nat \<Rightarrow> pystr" where
  "image_filename page_num img_index =
     ascii ''page_'' @ str_nat (page_num + 1) @ ascii ''_img_'' @ str_nat (img_index + 1) @
     ascii ''.png''"

record image_row =
  row_page :: nat
  image_index :: nat
  filename :: pystr
  row_width :: int
  row_height :: int
  full_text :: pystr
  row_id :: pystr
  row_name :: pystr

text \<open>
  The body of the loop over the images of a page.  \<open>None\<close>: the image is passed
  over, nothing is saved and nothing is appended.  \<open>Some row\<close>: the file
  \<open>filename row\<close> is saved and \<open>row\<close> is appended to \<open>extracted_data\<close>.
  The lines printed to the console are left out, \<open>pix.save\<close> is taken to succeed,
  and an exception of the pixmap calls is caught by the source and passes the image over.
\<close>

definition process_image ::
  "(pystr \<Rightarrow> bool) \<Rightarrow> int \<Rightarrow> ('a :: {minus, abs, ord, numeral}) block list \<Rightarrow> nat \<Rightarrow> nat
     \<Rightarrow> 'a image \<Rightarrow> image_row option" where
  "process_image pat min_size text_blocks page_num img_index img =
     (case image_rects img of
        [] \<Rightarrow> None
      | img_rect # _ \<Rightarrow>
          if \<not> matching_text_found pat img_rect text_blocks then None
          else
            (case load_pixmap img of
               Inl e \<Rightarrow> None
             | Inr pix \<Rightarrow>
                 if pix_width pix < min_size \<or> pix_height pix < min_size then None
                 else
                   (let mt = matching_text pat img_rect text_blocks;
                        has_bar = 124 \<in> set mt;
                        id_part = (if has_bar
                          then strip (dropWhile (\<lambda>c. c = 46 \<or> is_space c)
                                 (strip (takeWhile (\<lambda>c. c \<noteq> 124) mt)))
                          else []);
                        name_part = (if has_bar
                          then strip (drop 1 (dropWhile (\<lambda>c. c \<noteq> 124) mt))
                          else [])
                    in Some \<lparr>row_page = page_num + 1, image_index = img_index + 1,
                              filename = image_filename page_num img_index,
                              row_width = pix_width pix, row_height = pix_height pix,
                              full_text = mt, row_id = id_part, row_name = name_part\<rparr>)))"

record 'a image_page =
  images :: "'a image list"
  text_blocks :: "'a block list"

definition page_rows ::
  "(pystr \<Rightarrow> bool) \<Rightarrow> int \<Rightarrow> nat \<Rightarrow> ('a :: {minus, abs, ord, numeral}) image_page
     \<Rightarrow> image_row list" where
  "page_rows pat min_size page_num page =
     (if images page = [] then []
      else List.map_filter
             (\<lambda>(img_index, img). process_image pat min_size (text_blocks page) page_num img_index img)
             (enumerate 0 (images page)))"

record image_run =
  saved_files :: "pystr list"
  extracted_data :: "image_row list"
  total_extracted :: nat
  csv_written :: bool

definition extract_images_with_pattern ::
  "(pystr \<Rightarrow> bool) \<Rightarrow> int \<Rightarrow> ('a :: {minus, abs, ord, numeral}) image_page list \<Rightarrow> image_run" where
  "extract_images_with_pattern pat min_size doc =
     (let rows = concat (map (\<lambda>(page_num, page). page_rows pat min_size page_num page)
                          (enumerate 0 doc))
      in \<lparr>saved_files = map filename rows, extracted_data = rows,
           total_extracted = length rows, csv_written = (rows \<noteq> [])\<rparr>)"

section \<open>search\_price.py\<close>

text \<open>
  A row of \<open>csv.DictReader\<close> is a dictionary from column names to strings, or to
  \<open>None\<close> where the line was too short.  \<open>str.lower\<close> follows the Unicode database of
  the interpreter; it is the parameter \<open>lower\<close>, and \<open>ascii_lower\<close> is its
  restriction to ASCII texts, used to evaluate examples.  \<open>contains q n\<close> is
  \<open>q in n\<close> for two strings.
\<close>

datatype pyval = Str pystr | NoneVal

type_synonym row = "pystr \<rightharpoonup> pyval"

definition ascii_lower :: "pystr \<Rightarrow> pystr" where
  "ascii_lower s = map (\<lambda>c. if 65 \<le> c \<and> c \<le> 90 then c + 32 else c) s"

definition contains :: "pystr \<Rightarrow> pystr \<Rightarrow> bool" where
  "contains q n = list_ex (\<lambda>i. take (length q) (drop i n) = q) [0 ..< Suc (length n)]"

text \<open>
  The list comprehension of \<open>find_price\<close>: \<open>p['name']\<close> raises \<open>KeyError\<close> on a row
  without that column and \<open>.lower()\<close> raises \<open>AttributeError\<close> on \<open>None\<close>; the
  first row that raises ends the call.
\<close>

fun name_matches :: "(pystr \<Rightarrow> pystr) \<Rightarrow> pystr \<Rightarrow> row list \<Rightarrow> error + row list" where
  "name_matches lower query_lower [] = Inr []"
| "name_matches lower query_lower (p # products) =
     (case p (ascii ''name'') of
        None \<Rightarrow> Inl Key_error
      | Some NoneVal \<Rightarrow> Inl Attribute_error
      | Some (Str n) \<Rightarrow>
          (case name_matches lower query_lower products of
             Inl e \<Rightarrow> Inl e
           | Inr matches \<Rightarrow>
               Inr (if contains query_lower (lower n) then p # matches else matches)))"

definition find_price :: "(pystr \<Rightarrow> pystr) \<Rightarrow> row list \<Rightarrow> pystr \<Rightarrow> error + row list" where
  "find_price lower products query = (let query_lower = lower query
                                      in name_matches lower query_lower products)"

text \<open>
  \<open>main\<close>, given the loaded table and the line typed by the user.  Each matching row
  is printed with or without its id; \<open>dict.get\<close> gives the default when the key is
  absent.
\<close>

datatype main_output =
  Print_no_name
  | Print_with_id pyval pyval pyval
  | Print_without_id pyval pyval
  | Print_not_found

definition get_or :: "row \<Rightarrow> pystr \<Rightarrow> pystr \<Rightarrow> pyval" where
  "get_or p key dflt = (case p key of None \<Rightarrow> Str dflt | Some v \<Rightarrow> v)"

definition print_match :: "row \<Rightarrow> main_output" where
  "print_match product =
     (let name = get_or product (ascii ''name'') (ascii ''Unknown'');
          price = get_or product (ascii ''price'') (ascii ''N/A'');
          prod_id = get_or product (ascii ''id'') []
      in if prod_id \<noteq> NoneVal \<and> prod_id \<noteq> Str [] then Print_with_id name prod_id price
         else Print_without_id name price)"

definition main :: "(pystr \<Rightarrow> pystr) \<Rightarrow> row list \<Rightarrow> pystr \<Rightarrow> error + main_output list" where
  "main lower products input_line =
     (let query = strip input_line
      in if query = [] then Inr [Print_no_name]
         else (case find_price lower products query of
                 Inl e \<Rightarrow> Inl e
               | Inr matches \<Rightarrow>
                   Inr (if matches \<noteq> [] then map print_match matches else [Print_not_found])))"

section \<open>Auxiliary definitions and example inputs\<close>

text \<open>
  The two recursive groups written without a binder around the recursive call, so that
  the simplifier can run them on a given text.
\<close>

definition segs_from :: "pystr \<Rightarrow> nat list \<Rightarrow> nat list" where
  "segs_from t bs = List.bind bs (\<lambda>b. dot_segs t b @ [b])"

definition seps_from :: "(nat \<Rightarrow> bool) \<Rightarrow> pystr \<Rightarrow> nat list \<Rightarrow> nat list" where
  "seps_from dec t bs = List.bind bs (sep_groups dec t)"

text \<open>The lines printed while the pages are scanned, as opposed to the closing ones.\<close>

fun progress_line :: "text_output \<Rightarrow> bool" where
  "progress_line (Print_found product_data) = True"
| "progress_line (Print_page_count page_num page_products) = True"
| "progress_line _ = False"

definition counted :: "text_state \<Rightarrow> bool" where
  "counted st \<longleftrightarrow> total_found st = length (extracted_products st) \<and>
                 list_all progress_line (printed st)"

text \<open>Two rows of a table, for the examples.\<close>

definition shirt_row :: row where
  "shirt_row = [ascii ''name'' \<mapsto> Str (ascii ''Red Shirt''), ascii ''price'' \<mapsto> Str (ascii ''9.5'')]"

definition cap_row :: row where
  "cap_row = [ascii ''name'' \<mapsto> Str (ascii ''Cap''), ascii ''price'' \<mapsto> Str (ascii ''3'')]"

text \<open>
  The custom pattern \<^verbatim>\<open>\|\<close> and the page of the examples: an image at
  (0, 0, 300, 300) of 100 by 300 pixels, a second one of 250 by 250 pixels at the same
  place, and three text blocks, the first 500 units to the right, the second and the
  third below the images.
\<close>

definition has_bar :: "pystr \<Rightarrow> bool" where
  "has_bar s \<longleftrightarrow> 124 \<in> set s"

definition example_rect :: "int rect" where
  "example_rect = \<lparr>x0 = 0, y0 = 0, x1 = 300, y1 = 300\<rparr>"

definition example_blocks :: "int block list" where
  "example_blocks =
     [Block 500 310 700 330 (ascii ''16.1 | A''),
      Block 10 310 300 330 (ascii '' 16.2 | B ''),
      Block 20 320 300 340 (ascii ''16.3 | C'')]"

definition small_image :: "int image" where
  "small_image = \<lparr>image_rects = [example_rect],
     pixmap = Inr \<lparr>colorspace_n = Some 3, pix_width = 100, pix_height = 300\<rparr>,
     rgb_pixmap = Inl Library_error\<rparr>"

definition large_image :: "int image" where
  "large_image = \<lparr>image_rects = [example_rect],
     pixmap = Inr \<lparr>colorspace_n = Some 4, pix_width = 250, pix_height = 250\<rparr>,
     rgb_pixmap = Inr \<lparr>colorspace_n = Some 3, pix_width = 250, pix_height = 250\<rparr>\<rparr>"

definition example_page :: "int image_page" where
  "example_page = \<lparr>images = [small_image, large_image], text_blocks = example_blocks\<rparr>"

text \<open>
  The page texts of the examples: a row with a price, written with a comma; a text with
  no bar; two rows of which only the first has a price and the second has a comma in its
  name; and a row whose name has a run of three blanks.
\<close>

definition priced_text :: pystr where
  "priced_text = ascii ''1.2|abcd '' @ [8364] @ ascii ''3,5''"

definition plain_text :: pystr where
  "plain_text = ascii ''no bar''"

definition two_rows_text :: pystr where
  "two_rows_text = ascii ''1.2|ab '' @ [8364] @ ascii ''3,5'' @ [10] @ ascii ''3.4 | c, d''"

definition gap_text :: pystr where
  "gap_text = ascii ''1.2|a   b''"

section \<open>Properties of search\_price.py\<close>

lemma contains_iff: "contains q n \<longleftrightarrow> (\<exists>pre post. n = pre @ q @ post)"
proof
  assume "contains q n"
  then have "\<exists>i\<in>set [0 ..< Suc (length n)]. take (length q) (drop i n) = q"
    unfolding contains_def list_ex_iff .
  then obtain i where i: "i \<le> length n" "take (length q) (drop i n) = q"
    by (metis atLeastLessThan_iff set_upt less_Suc_eq_le)
  have "n = take i n @ take (length q) (drop i n) @ drop (length q) (drop i n)"
    by (simp only: append_take_drop_id)
  with i show "\<exists>pre post. n = pre @ q @ post" by metis
next
  assume "\<exists>pre post. n = pre @ q @ post"
  then obtain pre post where n: "n = pre @ q @ post" by blast
  then have "take (length q) (drop (length pre) n) = q" by simp
  moreover from n have "length pre \<le> length n" by simp
  ultimately show "contains q n"
    unfolding contains_def list_ex_iff by (intro bexI [of _ "length pre"]) auto
qed

lemma contains_Nil: "contains [] n"
  by (metis contains_iff append_Nil)

lemma name_matches_filter:
  "\<forall>p\<in>set products. \<exists>n. p (ascii ''name'') = Some (Str n) \<Longrightarrow>
   name_matches lower ql products =
     Inr (filter (\<lambda>p. \<exists>n. p (ascii ''name'') = Some (Str n) \<and> contains ql (lower n)) products)"
  by (induction products) auto

lemmas str_ev = ascii_def strip_def lstrip_def rstrip_def is_space_def

lemma example_rows_named:
  "\<forall>p\<in>set [shirt_row, cap_row]. \<exists>n. p (ascii ''name'') = Some (Str n)"
  by (simp add: shirt_row_def cap_row_def ascii_def)

lemma find_shirt:
  "find_price ascii_lower [shirt_row, cap_row] (ascii ''SHIRT'') = Inr [shirt_row]"
  by (simp add: find_price_def shirt_row_def cap_row_def ascii_def ascii_lower_def contains_def)

text \<open>
  Claim C4.  On a table whose rows all have a name, \<open>find_price\<close> returns the rows
  whose lowered name has the lowered query as a contiguous part, in the order of the
  table and nothing else; and when the line typed is blank, \<open>main\<close> prints that no
  name was entered and never calls \<open>find_price\<close>, so no row is printed.
\<close>

theorem find_price_substring:
  assumes "\<forall>p\<in>set products. \<exists>n. p (ascii ''name'') = Some (Str n)"
  shows "find_price lower products query =
           Inr (filter (\<lambda>p. \<exists>n pre post. p (ascii ''name'') = Some (Str n) \<and>
                               lower n = pre @ lower query @ post) products)
         \<and> (strip input_line = [] \<longrightarrow> main lower products input_line = Inr [Print_no_name])"
  using assms by (simp add: find_price_def name_matches_filter contains_iff main_def)

theorem find_price_substring_witness:
  "find_price ascii_lower [shirt_row, cap_row] (ascii ''SHIRT'') = Inr [shirt_row]
   \<and> main ascii_lower [shirt_row, cap_row] (ascii ''  '') = Inr [Print_no_name]"
proof -
  have blank: "strip (ascii ''  '') = []" by (simp add: str_ev)
  from find_price_substring [OF example_rows_named, of ascii_lower "ascii ''SHIRT''" "ascii ''  ''"] blank
  have "main ascii_lower [shirt_row, cap_row] (ascii ''  '') = Inr [Print_no_name]" by blast
  with find_shirt show ?thesis by simp
qed

text \<open>
  Claim C10.  With the empty string as query \<open>find_price\<close> returns the whole table,
  unchanged and in order (on a table whose rows all have a name; lowering the empty
  string gives the empty string).  The refusal of an empty query is in \<open>main\<close> only.
\<close>

theorem find_price_empty_query:
  assumes "lower [] = []"
    and "\<forall>p\<in>set products. \<exists>n. p (ascii ''name'') = Some (Str n)"
  shows "find_price lower products [] = Inr products"
proof -
  have "filter (\<lambda>p. \<exists>n. p (ascii ''name'') = Some (Str n) \<and> contains [] (lower n)) products
          = products"
    using assms(2) by (simp add: contains_Nil filter_id_conv)
  with assms show ?thesis by (simp add: find_price_def name_matches_filter)
qed

theorem find_price_empty_query_witness:
  "find_price ascii_lower [shirt_row, cap_row] [] = Inr [shirt_row, cap_row]"
proof -
  have "ascii_lower [] = []" by (simp add: ascii_lower_def)
  then show ?thesis using example_rows_named by (rule find_price_empty_query)
qed

section \<open>Properties of scrape\_pdf\_images.py\<close>

lemma matching_text_found_iff:
  "matching_text_found pat img_rect blocks \<longleftrightarrow>
     (\<exists>a b c d s. Block a b c d s \<in> set blocks \<and>
        below_and_near img_rect \<lparr>x0 = a, y0 = b, x1 = c, y1 = d\<rparr> \<and> pat (strip s))"
proof (induction blocks)
  case Nil
  show ?case by simp
next
  case (Cons blk blocks)
  show ?case
  proof (cases blk)
    case Short_block
    with Cons show ?thesis by simp
  next
    case (Block a b c d s)
    with Cons show ?thesis by (simp add: Let_def) blast
  qed
qed

lemma first_matching_block:
  "matching_text_found pat img_rect blocks \<Longrightarrow>
     \<exists>pre a b c d s post. blocks = pre @ Block a b c d s # post \<and>
        below_and_near img_rect \<lparr>x0 = a, y0 = b, x1 = c, y1 = d\<rparr> \<and> pat (strip s) \<and>
        \<not> matching_text_found pat img_rect pre \<and>
        matching_text pat img_rect blocks = strip s"
proof (induction blocks)
  case Nil
  then show ?case by simp
next
  case (Cons blk blocks)
  show ?case
  proof (cases "\<exists>a b c d s. blk = Block a b c d s \<and>
      below_and_near img_rect \<lparr>x0 = a, y0 = b, x1 = c, y1 = d\<rparr> \<and> pat (strip s)")
    case True
    then obtain a b c d s where blk: "blk = Block a b c d s"
      and ok: "below_and_near img_rect \<lparr>x0 = a, y0 = b, x1 = c, y1 = d\<rparr>" "pat (strip s)"
      by blast
    then have "blk # blocks = [] @ Block a b c d s # blocks
       \<and> below_and_near img_rect \<lparr>x0 = a, y0 = b, x1 = c, y1 = d\<rparr> \<and> pat (strip s)
       \<and> \<not> matching_text_found pat img_rect []
       \<and> matching_text pat img_rect (blk # blocks) = strip s"
      by simp
    then show ?thesis by blast
  next
    case False
    have skip: "matching_text_found pat img_rect (blk # ys) = matching_text_found pat img_rect ys
      \<and> matching_text pat img_rect (blk # ys) = matching_text pat img_rect ys" for ys
    proof (cases blk)
      case Short_block
      then show ?thesis by simp
    next
      case (Block a b c d s)
      with False have "\<not> (below_and_near img_rect \<lparr>x0 = a, y0 = b, x1 = c, y1 = d\<rparr> \<and> pat (strip s))"
        by blast
      with Block show ?thesis by (auto simp: Let_def)
    qed
    with Cons.prems have "matching_text_found pat img_rect blocks" by simp
    from Cons.IH [OF this]
    obtain pre a b c d s post where
      *: "blocks = pre @ Block a b c d s # post"
      "below_and_near img_rect \<lparr>x0 = a, y0 = b, x1 = c, y1 = d\<rparr>" "pat (strip s)"
      "\<not> matching_text_found pat img_rect pre" "matching_text pat img_rect blocks = strip s"
      by blast
    then have "blk # blocks = (blk # pre) @ Block a b c d s # post
       \<and> below_and_near img_rect \<lparr>x0 = a, y0 = b, x1 = c, y1 = d\<rparr> \<and> pat (strip s)
       \<and> \<not> matching_text_found pat img_rect (blk # pre)
       \<and> matching_text pat img_rect (blk # blocks) = strip s"
      using skip by simp
    then show ?thesis by blast
  qed
qed

lemma set_map_filter_iff:
  "y \<in> set (List.map_filter f xs) \<longleftrightarrow> (\<exists>x\<in>set xs. f x = Some y)"
  by (induction xs) (auto split: option.splits)

lemma process_image_Some:
  assumes "process_image pat min_size blocks page_num img_index img = Some row"
  shows "\<exists>img_rect rest pix. image_rects img = img_rect # rest \<and>
        matching_text_found pat img_rect blocks \<and>
        full_text row = matching_text pat img_rect blocks \<and>
        load_pixmap img = Inr pix \<and> min_size \<le> pix_width pix \<and> min_size \<le> pix_height pix \<and>
        row_width row = pix_width pix \<and> row_height row = pix_height pix"
proof -
  from assms obtain img_rect rest where rects: "image_rects img = img_rect # rest"
    by (cases "image_rects img") (simp_all add: process_image_def)
  from assms rects have found: "matching_text_found pat img_rect blocks"
    by (cases "matching_text_found pat img_rect blocks") (simp_all add: process_image_def)
  from assms rects found obtain pix where pix: "load_pixmap img = Inr pix"
    by (cases "load_pixmap img") (simp_all add: process_image_def)
  from assms rects found pix have big: "\<not> (pix_width pix < min_size \<or> pix_height pix < min_size)"
    by (cases "pix_width pix < min_size \<or> pix_height pix < min_size")
       (simp_all add: process_image_def)
  with assms rects found pix have
    "full_text row = matching_text pat img_rect blocks \<and>
     row_width row = pix_width pix \<and> row_height row = pix_height pix"
    by (auto simp add: process_image_def Let_def)
  with rects found pix big show ?thesis by auto
qed

lemma ex_enumerate:
  "(\<exists>x\<in>set (enumerate 0 xs). P (fst x) (snd x)) \<longleftrightarrow> (\<exists>i<length xs. P i (xs ! i))"
proof
  assume "\<exists>x\<in>set (enumerate 0 xs). P (fst x) (snd x)"
  then obtain x where "x \<in> set (enumerate 0 xs)" "P (fst x) (snd x)" by blast
  then have "fst x < length xs \<and> P (fst x) (xs ! fst x)"
    by (simp add: in_set_enumerate_eq)
  then show "\<exists>i<length xs. P i (xs ! i)" by blast
next
  assume "\<exists>i<length xs. P i (xs ! i)"
  then obtain i where "i < length xs" "P i (xs ! i)" by blast
  then have "(i, xs ! i) \<in> set (enumerate 0 xs) \<and> P (fst (i, xs ! i)) (snd (i, xs ! i))"
    by (simp add: in_set_enumerate_eq)
  then show "\<exists>x\<in>set (enumerate 0 xs). P (fst x) (snd x)" by blast
qed

lemma page_rows_iff:
  "row \<in> set (page_rows pat min_size page_num page) \<longleftrightarrow>
     (\<exists>img_index<length (images page).
        process_image pat min_size (text_blocks page) page_num img_index
          (images page ! img_index) = Some row)"
proof (cases "images page = []")
  case True
  then show ?thesis by (simp add: page_rows_def)
next
  case False
  then have "row \<in> set (page_rows pat min_size page_num page) \<longleftrightarrow>
      (\<exists>x\<in>set (enumerate 0 (images page)).
         process_image pat min_size (text_blocks page) page_num (fst x) (snd x) = Some row)"
    by (simp add: page_rows_def set_map_filter_iff case_prod_beta)
  also have "\<dots> \<longleftrightarrow> (\<exists>img_index<length (images page).
        process_image pat min_size (text_blocks page) page_num img_index
          (images page ! img_index) = Some row)"
    by (rule ex_enumerate)
  finally show ?thesis .
qed

lemma extracted_data_iff:
  "row \<in> set (extracted_data (extract_images_with_pattern pat min_size doc)) \<longleftrightarrow>
     (\<exists>page_num<length doc. \<exists>img_index<length (images (doc ! page_num)).
        process_image pat min_size (text_blocks (doc ! page_num)) page_num img_index
          (images (doc ! page_num) ! img_index) = Some row)"
proof -
  have "row \<in> set (extracted_data (extract_images_with_pattern pat min_size doc)) \<longleftrightarrow>
      (\<exists>x\<in>set (enumerate 0 doc). row \<in> set (page_rows pat min_size (fst x) (snd x)))"
    by (simp add: extract_images_with_pattern_def Let_def case_prod_beta)
  also have "\<dots> \<longleftrightarrow> (\<exists>page_num<length doc. row \<in> set (page_rows pat min_size page_num (doc ! page_num)))"
    by (rule ex_enumerate)
  finally show ?thesis by (simp add: page_rows_iff)
qed

lemmas image_ev = has_bar_def example_rect_def example_blocks_def small_image_def
  large_image_def example_page_def below_and_near_def load_pixmap_def process_image_def
  page_rows_def extract_images_with_pattern_def image_filename_def
  List.map_filter_def enumerate_eq_zip Let_def

lemma example_found: "matching_text_found has_bar example_rect example_blocks"
  by (simp add: image_ev str_ev)

lemma example_text:
  "matching_text has_bar example_rect example_blocks = ascii ''16.2 | B''"
  by (simp add: image_ev str_ev)

text \<open>
  Claim C2.  A text block is taken for an image exactly when its top edge lies below
  the bottom edge of the image, its left edge is less than 100 units from the left edge
  of the image, the gap is less than 50 units, and its stripped text matches the
  pattern; some block is found exactly when such a block exists, and the block kept is
  then the first one in the order of the text stream: no block before it passes the
  test.  The record of an image carries the text of that block.
\<close>

theorem geometric_association:
  fixes img_rect :: "('a :: {minus, abs, ord, numeral}) rect"
  shows "(matching_text_found pat img_rect blocks \<longleftrightarrow>
            (\<exists>a b c d s. Block a b c d s \<in> set blocks \<and>
               b > y1 img_rect \<and> \<bar>a - x0 img_rect\<bar> < 100 \<and> b - y1 img_rect < 50 \<and>
               pat (strip s)))
       \<and> (matching_text_found pat img_rect blocks \<longrightarrow>
            (\<exists>pre a b c d s post. blocks = pre @ Block a b c d s # post \<and>
               b > y1 img_rect \<and> \<bar>a - x0 img_rect\<bar> < 100 \<and> b - y1 img_rect < 50 \<and>
               pat (strip s) \<and>
               (\<forall>a' b' c' d' s'. Block a' b' c' d' s' \<in> set pre \<longrightarrow>
                  \<not> (b' > y1 img_rect \<and> \<bar>a' - x0 img_rect\<bar> < 100 \<and> b' - y1 img_rect < 50 \<and>
                     pat (strip s'))) \<and>
               matching_text pat img_rect blocks = strip s))
       \<and> (\<forall>row. process_image pat min_size blocks page_num img_index img = Some row \<longrightarrow>
            (\<exists>r rest. image_rects img = r # rest \<and> matching_text_found pat r blocks \<and>
               full_text row = matching_text pat r blocks))"
proof (intro conjI impI allI)
  show "matching_text_found pat img_rect blocks \<longleftrightarrow>
            (\<exists>a b c d s. Block a b c d s \<in> set blocks \<and>
               b > y1 img_rect \<and> \<bar>a - x0 img_rect\<bar> < 100 \<and> b - y1 img_rect < 50 \<and>
               pat (strip s))"
    by (simp add: matching_text_found_iff below_and_near_def)
next
  assume "matching_text_found pat img_rect blocks"
  from first_matching_block [OF this]
  obtain pre a b c d s post where *: "blocks = pre @ Block a b c d s # post"
    "below_and_near img_rect \<lparr>x0 = a, y0 = b, x1 = c, y1 = d\<rparr>" "pat (strip s)"
    "\<not> matching_text_found pat img_rect pre" "matching_text pat img_rect blocks = strip s"
    by blast
  from *(4) have "\<forall>a' b' c' d' s'. Block a' b' c' d' s' \<in> set pre \<longrightarrow>
      \<not> (b' > y1 img_rect \<and> \<bar>a' - x0 img_rect\<bar> < 100 \<and> b' - y1 img_rect < 50 \<and> pat (strip s'))"
    by (simp add: matching_text_found_iff below_and_near_def)
  moreover from *(2) have "b > y1 img_rect \<and> \<bar>a - x0 img_rect\<bar> < 100 \<and> b - y1 img_rect < 50"
    by (simp add: below_and_near_def)
  ultimately show "\<exists>pre a b c d s post. blocks = pre @ Block a b c d s # post \<and>
               b > y1 img_rect \<and> \<bar>a - x0 img_rect\<bar> < 100 \<and> b - y1 img_rect < 50 \<and>
               pat (strip s) \<and>
               (\<forall>a' b' c' d' s'. Block a' b' c' d' s' \<in> set pre \<longrightarrow>
                  \<not> (b' > y1 img_rect \<and> \<bar>a' - x0 img_rect\<bar> < 100 \<and> b' - y1 img_rect < 50 \<and>
                     pat (strip s'))) \<and>
               matching_text pat img_rect blocks = strip s"
    using *(1,3,5) by blast
next
  fix row
  assume "process_image pat min_size blocks page_num img_index img = Some row"
  from process_image_Some [OF this]
  show "\<exists>r rest. image_rects img = r # rest \<and> matching_text_found pat r blocks \<and>
               full_text row = matching_text pat r blocks"
    by blast
qed

theorem geometric_association_witness:
  "matching_text_found has_bar example_rect example_blocks
   \<and> matching_text has_bar example_rect example_blocks = ascii ''16.2 | B''
   \<and> map full_text (extracted_data (extract_images_with_pattern has_bar 200 [example_page]))
       = [ascii ''16.2 | B'']"
proof -
  have rows: "map full_text (extracted_data (extract_images_with_pattern has_bar 200 [example_page]))
       = [ascii ''16.2 | B'']"
    by (simp add: image_ev str_ev)
  from geometric_association [of has_bar example_rect example_blocks 200 0 1 large_image]
    example_found
  have "\<exists>pre a b c d s post. example_blocks = pre @ Block a b c d s # post \<and>
      matching_text has_bar example_rect example_blocks = strip s"
    by blast
  with example_found example_text rows show ?thesis by simp
qed

text \<open>
  Claim C7.  An image whose pixmap, as it stands at the size test (after the
  conversion to RGB where the source converts), is narrower or lower than
  \<open>min_size\<close> gives no row and no saved file, whatever the text blocks are.  The
  rows of a run are exactly the rows that the images of its pages give, so every row has
  a width and a height of at least \<open>min_size\<close>, and the files saved are the files of
  the rows.
\<close>

theorem minimum_size_filter:
  fixes doc :: "('a :: {minus, abs, ord, numeral}) image_page list"
    and blocks :: "'a block list"
  shows "(load_pixmap img = Inr pix \<and> (pix_width pix < min_size \<or> pix_height pix < min_size)
            \<longrightarrow> process_image pat min_size blocks page_num img_index img = None)
       \<and> (\<forall>row. row \<in> set (extracted_data (extract_images_with_pattern pat min_size doc)) \<longleftrightarrow>
            (\<exists>pn<length doc. \<exists>ix<length (images (doc ! pn)).
               process_image pat min_size (text_blocks (doc ! pn)) pn ix
                 (images (doc ! pn) ! ix) = Some row))
       \<and> (\<forall>row \<in> set (extracted_data (extract_images_with_pattern pat min_size doc)).
            min_size \<le> row_width row \<and> min_size \<le> row_height row)
       \<and> saved_files (extract_images_with_pattern pat min_size doc)
            = map filename (extracted_data (extract_images_with_pattern pat min_size doc))"
proof (intro conjI impI allI ballI)
  assume "load_pixmap img = Inr pix \<and> (pix_width pix < min_size \<or> pix_height pix < min_size)"
  then show "process_image pat min_size blocks page_num img_index img = None"
    by (auto simp: process_image_def split: list.splits)
next
  fix row
  show "row \<in> set (extracted_data (extract_images_with_pattern pat min_size doc)) \<longleftrightarrow>
            (\<exists>pn<length doc. \<exists>ix<length (images (doc ! pn)).
               process_image pat min_size (text_blocks (doc ! pn)) pn ix
                 (images (doc ! pn) ! ix) = Some row)"
    by (rule extracted_data_iff)
next
  fix row
  assume "row \<in> set (extracted_data (extract_images_with_pattern pat min_size doc))"
  then obtain pn ix where
    "process_image pat min_size (text_blocks (doc ! pn)) pn ix (images (doc ! pn) ! ix) = Some row"
    unfolding extracted_data_iff by blast
  from process_image_Some [OF this]
  show "min_size \<le> row_width row" and "min_size \<le> row_height row" by auto
next
  show "saved_files (extract_images_with_pattern pat min_size doc)
            = map filename (extracted_data (extract_images_with_pattern pat min_size doc))"
    by (simp add: extract_images_with_pattern_def Let_def)
qed

theorem minimum_size_filter_witness:
  "load_pixmap small_image = Inr \<lparr>colorspace_n = Some 3, pix_width = 100, pix_height = 300\<rparr>
   \<and> process_image has_bar 200 example_blocks 0 0 small_image = None
   \<and> map image_index (extracted_data (extract_images_with_pattern has_bar 200 [example_page])) = [2]
   \<and> saved_files (extract_images_with_pattern has_bar 200 [example_page])
       = [ascii ''page_1_img_2.png'']"
proof -
  have load: "load_pixmap small_image
      = Inr \<lparr>colorspace_n = Some 3, pix_width = 100, pix_height = 300\<rparr>"
    by (simp add: image_ev)
  have run: "map image_index (extracted_data (extract_images_with_pattern has_bar 200 [example_page])) = [2]"
    "saved_files (extract_images_with_pattern has_bar 200 [example_page])
       = [ascii ''page_1_img_2.png'']"
    by (simp_all add: image_ev str_ev str_nat.simps)
  from minimum_size_filter [of small_image
      "\<lparr>colorspace_n = Some 3, pix_width = 100, pix_height = 300\<rparr>" 200 has_bar example_blocks 0 0
      "[example_page]"] load
  have "process_image has_bar 200 example_blocks 0 0 small_image = None"
    by simp
  with load run show ?thesis by simp
qed

section \<open>Evaluation of the patterns\<close>

lemma dot_segs_unfold:
  "dot_segs t i =
     (if i < length t \<and> t ! i = 46 then segs_from t (greedy alnum 1 t (Suc i)) else [])"
  by (subst dot_segs.simps) (simp add: lit_def one_of_def segs_from_def)

lemma segs_from_unfold:
  "segs_from t [] = []"
  "segs_from t (b # bs) = dot_segs t b @ b # segs_from t bs"
  by (simp_all add: segs_from_def)

lemma sep_groups_unfold:
  "sep_groups dec t i =
     (if i < length t \<and> (t ! i = 44 \<or> t ! i = 46 \<or> t ! i = 45)
      then seps_from dec t (greedy dec 1 t (Suc i)) else []) @ [i]"
  by (subst sep_groups.simps) (auto simp: one_of_def seps_from_def)

lemma seps_from_unfold:
  "seps_from dec t [] = []"
  "seps_from dec t (b # bs) = sep_groups dec t b @ seps_from dec t bs"
  by (simp_all add: seps_from_def)

lemmas regex_ev = greedy_def greedy_upto_def run_len_def lit_def one_of_def slice_def
  alnum_def name_char_def ascii_digit_def replace_comma_def

lemmas positions_ev = id_name_at_def price_at_def dot_segs_unfold segs_from_unfold
  find_id_names.simps find_prices.simps id_name_matches_def price_matches_def
  page_records_def price_field_def not_found_def enumerate_eq_zip extract_product_data_def

lemmas info_ev = amount_at_def sep_groups_unfold seps_from_unfold search_amount_def
  parse_product_text_def line_pattern_def text_page_step_def extract_product_text_data_def

section \<open>Properties of the two text scripts as whole runs\<close>

lemma pages_loop_readable:
  "pages_loop dec n (map Inr texts) acc =
     Inr (acc @ concat (map (\<lambda>(k, t). page_records dec k t) (enumerate n texts)))"
  by (induction texts arbitrary: n acc) simp_all

lemma pages_loop_raises:
  "pages_loop dec n doc acc = Inl e \<Longrightarrow> \<exists>p\<in>set doc. p = Inl e"
  by (induction dec n doc acc rule: pages_loop.induct) auto

lemma matches_loop_counted:
  "counted st \<Longrightarrow> counted (fst (matches_loop dec page_num text starts (st, k)))"
proof (induction starts arbitrary: st k)
  case Nil
  then show ?case by simp
next
  case (Cons match_start starts)
  show ?case
  proof (cases "parse_product_text dec (take 1000 (drop match_start text)) (page_num + 1)")
    case None
    with Cons show ?thesis by simp
  next
    case (Some product_data)
    from Cons.prems have "counted \<lparr>extracted_products = extracted_products st @ [product_data],
        total_found = total_found st + 1,
        printed = printed st @ [Print_found product_data]\<rparr>"
      by (simp add: counted_def)
    from Cons.IH [OF this] Some show ?thesis by simp
  qed
qed

lemma text_page_step_counted:
  assumes "counted st"
  shows "counted (text_page_step pat dec page_num text st)"
proof -
  obtain st' k where loop: "matches_loop dec page_num text (pat text) (st, 0) = (st', k)"
    by (cases "matches_loop dec page_num text (pat text) (st, 0)")
  from matches_loop_counted [OF assms, of dec page_num "text" "pat text" 0] loop
  have "counted st'" by simp
  with loop show ?thesis by (simp add: text_page_step_def counted_def)
qed

lemma text_pages_loop_readable:
  "counted st \<Longrightarrow>
     fst (text_pages_loop pat dec n (map Inr texts) st) = None \<and>
     counted (snd (text_pages_loop pat dec n (map Inr texts) st))"
  by (induction texts arbitrary: n st) (simp_all add: text_page_step_counted)

lemma text_pages_loop_none:
  "fst (text_pages_loop pat dec n doc st) = None \<longleftrightarrow> (\<forall>p\<in>set doc. \<exists>t. p = Inr t)"
  by (induction pat dec n doc st rule: text_pages_loop.induct) auto

lemma counted_start: "counted \<lparr>extracted_products = [], total_found = 0, printed = []\<rparr>"
  by (simp add: counted_def)

lemma plain_run:
  "extract_product_text_data line_pattern ascii_digit [Inr plain_text] =
     \<lparr>handle_closed = True, outcome = Inr (),
      effects = [Print_total_found 0, Print_no_products]\<rparr>"
  by (simp add: plain_text_def info_ev str_ev)

lemma failed_run:
  "extract_product_text_data line_pattern ascii_digit [Inl Library_error] =
     \<lparr>handle_closed = False, outcome = Inl Library_error, effects = []\<rparr>"
  by (simp add: info_ev)

text \<open>
  Claim C8, as the source has it.  When the text of every page can be read,
  \<open>extract_product_text_data\<close> returns after printing, behind the lines of the pages,
  the number of records found; the CSV file with these records is written next when
  there is at least one record, and when there is none only the warning is printed and
  no file is written.  The script of \<open>extract_prices_position.py\<close> writes its CSV file
  and prints the number of its rows in every such run, also when there are none.
\<close>

theorem run_completion:
  "(\<exists>prints recs.
      extract_product_text_data pat dec (map Inr texts) =
        \<lparr>handle_closed = True, outcome = Inr (),
         effects = prints @ [Print_total_found (length recs)] @
           (if recs \<noteq> [] then [Write_product_csv recs, Print_csv_saved]
            else [Print_no_products])\<rparr>
      \<and> list_all progress_line prints)
   \<and> (\<exists>cleaned.
        script dec (map Inr texts) =
          Inr ([Print_heading] @ map Print_row (take 50 cleaned) @
               [Write_csv (ascii ''product_prices_accurate.csv'') cleaned,
                Print_total (length cleaned), Print_saved]))"
proof
  obtain e st where loop: "text_pages_loop pat dec 0 (map Inr texts)
      \<lparr>extracted_products = [], total_found = 0, printed = []\<rparr> = (e, st)"
    by (cases "text_pages_loop pat dec 0 (map Inr texts)
      \<lparr>extracted_products = [], total_found = 0, printed = []\<rparr>")
  from text_pages_loop_readable [OF counted_start, of pat dec 0 texts] loop
  have e: "e = None" and st: "counted st" by simp_all
  from st have total: "total_found st = length (extracted_products st)"
    and prints: "list_all progress_line (printed st)"
    by (simp_all add: counted_def)
  from loop e total have "extract_product_text_data pat dec (map Inr texts) =
        \<lparr>handle_closed = True, outcome = Inr (),
         effects = printed st @ [Print_total_found (length (extracted_products st))] @
           (if extracted_products st \<noteq> []
            then [Write_product_csv (extracted_products st), Print_csv_saved]
            else [Print_no_products])\<rparr>"
    by (simp add: extract_product_text_data_def)
  with prints show "\<exists>prints recs.
      extract_product_text_data pat dec (map Inr texts) =
        \<lparr>handle_closed = True, outcome = Inr (),
         effects = prints @ [Print_total_found (length recs)] @
           (if recs \<noteq> [] then [Write_product_csv recs, Print_csv_saved]
            else [Print_no_products])\<rparr>
      \<and> list_all progress_line prints"
    by blast
next
  show "\<exists>cleaned.
        script dec (map Inr texts) =
          Inr ([Print_heading] @ map Print_row (take 50 cleaned) @
               [Write_csv (ascii ''product_prices_accurate.csv'') cleaned,
                Print_total (length cleaned), Print_saved])"
    by (simp add: script_def extract_product_data_def pages_loop_readable Let_def)
qed

theorem run_completion_witness:
  "effects (extract_product_text_data line_pattern ascii_digit (map Inr [priced_text]))
     = [Print_found \<lparr>info_page = 1, info_id = ascii ''1.2'', info_price = ascii ''3,5'',
                      info_full_text = priced_text\<rparr>,
        Print_page_count 1 1,
        Print_total_found 1,
        Write_product_csv [\<lparr>info_page = 1, info_id = ascii ''1.2'', info_price = ascii ''3,5'',
                             info_full_text = priced_text\<rparr>],
        Print_csv_saved]
   \<and> script ascii_digit (map Inr [priced_text])
     = Inr [Print_heading,
            Print_row \<lparr>Page = 1, ID = ascii ''1.2'', Name = ascii ''abcd'',
                        Price = 8364 # ascii ''3.5''\<rparr>,
            Write_csv (ascii ''product_prices_accurate.csv'')
              [\<lparr>Page = 1, ID = ascii ''1.2'', Name = ascii ''abcd'',
                 Price = 8364 # ascii ''3.5''\<rparr>],
            Print_total 1, Print_saved]"
proof -
  have a: "effects (extract_product_text_data line_pattern ascii_digit (map Inr [priced_text]))
     = [Print_found \<lparr>info_page = 1, info_id = ascii ''1.2'', info_price = ascii ''3,5'',
                      info_full_text = priced_text\<rparr>,
        Print_page_count 1 1,
        Print_total_found 1,
        Write_product_csv [\<lparr>info_page = 1, info_id = ascii ''1.2'', info_price = ascii ''3,5'',
                             info_full_text = priced_text\<rparr>],
        Print_csv_saved]"
    by (simp add: priced_text_def info_ev regex_ev str_ev)
  have b: "script ascii_digit (map Inr [priced_text])
     = Inr [Print_heading,
            Print_row \<lparr>Page = 1, ID = ascii ''1.2'', Name = ascii ''abcd'',
                        Price = 8364 # ascii ''3.5''\<rparr>,
            Write_csv (ascii ''product_prices_accurate.csv'')
              [\<lparr>Page = 1, ID = ascii ''1.2'', Name = ascii ''abcd'',
                 Price = 8364 # ascii ''3.5''\<rparr>],
            Print_total 1, Print_saved]"
    by (simp add: priced_text_def script_def cleaned_products_def clean_product_name_def
        positions_ev regex_ev str_ev)
  from run_completion [of line_pattern ascii_digit "[priced_text]"] a b
  show ?thesis by blast
qed

theorem run_completion_counterexample:
  "extract_product_text_data line_pattern ascii_digit [Inr plain_text] =
     \<lparr>handle_closed = True, outcome = Inr (),
      effects = [Print_total_found 0, Print_no_products]\<rparr>"
  by (rule plain_run)

text \<open>
  Claim C9, as the source has it.  \<open>extract_product_text_data\<close> has closed the document
  exactly when it returns, and it returns exactly when the text of every page can be
  read: an exception of \<open>page.get_text()\<close> leaves the function with the document
  open.  \<open>extract_product_data\<close> never closes the document.
\<close>

theorem document_handle:
  "(handle_closed (extract_product_text_data pat dec doc) \<longleftrightarrow>
      outcome (extract_product_text_data pat dec doc) = Inr ())
   \<and> (outcome (extract_product_text_data pat dec doc) = Inr () \<longleftrightarrow>
        (\<forall>p\<in>set doc. \<exists>t. p = Inr t))
   \<and> \<not> handle_closed (extract_product_data dec doc)"
proof -
  obtain e st where loop: "text_pages_loop pat dec 0 doc
      \<lparr>extracted_products = [], total_found = 0, printed = []\<rparr> = (e, st)"
    by (cases "text_pages_loop pat dec 0 doc
      \<lparr>extracted_products = [], total_found = 0, printed = []\<rparr>")
  from text_pages_loop_none [of pat dec 0 doc
      "\<lparr>extracted_products = [], total_found = 0, printed = []\<rparr>"] loop
  have none: "e = None \<longleftrightarrow> (\<forall>p\<in>set doc. \<exists>t. p = Inr t)" by simp
  show ?thesis
  proof (cases e)
    case None
    with loop none show ?thesis
      by (simp add: extract_product_text_data_def extract_product_data_def)
  next
    case (Some err)
    with loop none show ?thesis
      by (simp add: extract_product_text_data_def extract_product_data_def)
  qed
qed

theorem document_handle_witness:
  "handle_closed (extract_product_text_data line_pattern ascii_digit [Inr plain_text]) = True
   \<and> outcome (extract_product_text_data line_pattern ascii_digit [Inr plain_text]) = Inr ()
   \<and> handle_closed (extract_product_data ascii_digit [Inr plain_text]) = False"
proof -
  have "\<forall>p\<in>set [Inr plain_text :: text_page]. \<exists>t. p = Inr t" by simp
  with document_handle [of line_pattern ascii_digit "[Inr plain_text]"]
  show ?thesis by simp
qed

theorem document_handle_counterexample:
  "extract_product_text_data line_pattern ascii_digit [Inl Library_error] =
     \<lparr>handle_closed = False, outcome = Inl Library_error, effects = []\<rparr>
   \<and> handle_closed (extract_product_data ascii_digit []) = False
   \<and> outcome (extract_product_data ascii_digit []) = Inr []"
  by (simp add: failed_run extract_product_data_def)

section \<open>Properties of extract\_prices\_position.py\<close>

subsection \<open>What the two patterns capture\<close>

lemma take_run:
  assumes "n \<le> length (takeWhile p xs)" and "x \<in> set (take n xs)"
  shows "p x"
proof -
  have "take n xs = take n (takeWhile p xs @ dropWhile p xs)" by simp
  also from assms(1) have "\<dots> = take n (takeWhile p xs)" by (simp del: takeWhile_dropWhile_id)
  finally have "x \<in> set (takeWhile p xs)" using assms(2) by (auto dest: in_set_takeD)
  then show ?thesis by (rule set_takeWhileD [THEN conjunct2])
qed

lemma greedy_slice:
  assumes "f \<in> set (greedy p lo t e)" and "x \<in> set (slice t e f)"
  shows "p x"
proof -
  from assms(1) have "f - e \<le> length (takeWhile p (drop e t))"
    by (auto simp: greedy_def run_len_def)
  from this assms(2) show ?thesis unfolding slice_def by (rule take_run)
qed

lemma greedy_slice_nonempty:
  assumes "f \<in> set (greedy p (Suc 0) t e)"
  shows "slice t e f \<noteq> []"
proof -
  from assms have "e < f" "f \<le> e + length (takeWhile p (drop e t))"
    by (auto simp: greedy_def run_len_def)
  moreover have "length (takeWhile p (drop e t)) \<le> length t - e"
    using length_takeWhile_le [of p "drop e t"] by simp
  ultimately show ?thesis by (auto simp: slice_def)
qed

lemma id_name_at_name:
  assumes "(pid, name, e) \<in> set (id_name_at t i)"
  shows "name \<noteq> [] \<and> (\<forall>c\<in>set name. name_char c)"
proof -
  from assms obtain e' f where f: "f \<in> set (greedy name_char 1 t e')"
    and name: "name = slice t e' f"
    by (auto simp: id_name_at_def set_list_bind)
  from f name show ?thesis
    using greedy_slice [of f name_char 1 t e'] greedy_slice_nonempty [of f name_char t e']
    by auto
qed

lemma find_id_names_at:
  "(pid, name) \<in> set (find_id_names t pos) \<Longrightarrow> \<exists>i e. (pid, name, e) \<in> set (id_name_at t i)"
proof (induction t pos rule: find_id_names.induct)
  case (1 t pos)
  show ?case
  proof (cases "id_name_at t pos")
    case Nil
    with "1.prems" have "length t \<ge> pos" "(pid, name) \<in> set (find_id_names t (Suc pos))"
      by (subst (asm) find_id_names.simps, simp split: if_splits)+
    with Nil "1.IH"(1) show ?thesis by simp
  next
    case (Cons m ms)
    obtain pid' name' e' where m: "m = (pid', name', e')" by (cases m)
    from "1.prems" Cons m have le: "length t \<ge> pos"
      and mem: "(pid, name) = (pid', name') \<or> (pid, name) \<in> set (find_id_names t e')"
      by (subst (asm) find_id_names.simps, simp split: if_splits)+
    from mem show ?thesis
    proof
      assume "(pid, name) = (pid', name')"
      with Cons m have "(pid, name, e') \<in> set (id_name_at t pos)" by simp
      then show ?thesis by blast
    next
      assume "(pid, name) \<in> set (find_id_names t e')"
      with le Cons m "1.IH"(2) show ?thesis by simp
    qed
  qed
qed

lemma id_name_matches_name:
  "(pid, name) \<in> set (id_name_matches text) \<Longrightarrow> name \<noteq> [] \<and> (\<forall>c\<in>set name. name_char c)"
  unfolding id_name_matches_def by (blast dest: find_id_names_at id_name_at_name)

lemma price_at_separator:
  assumes "(price, e) \<in> set (price_at dec t i)"
  shows "46 \<in> set price \<or> 44 \<in> set price"
proof -
  from assms obtain b c d e' where c: "c \<in> set (greedy dec 1 t b)"
    and d: "d \<in> set (one_of (\<lambda>x. x = 46 \<or> x = 44) t c)"
    and e': "e' \<in> set (greedy_upto dec 1 2 t d)" and price: "price = slice t b e'"
    by (auto simp: price_at_def set_list_bind)
  from c have bc: "b < c" by (auto dest: greedy_end)
  from d have dc: "d = Suc c" "c < length t" "t ! c = 46 \<or> t ! c = 44"
    by (auto dest: one_of_end)
  from e' dc have ce: "c < e'" by (auto dest: greedy_upto_end)
  from bc ce dc have "c - b < e' - b" "c - b < length t - b" "b + (c - b) = c" by arith+
  then have "c - b < length (slice t b e')" "slice t b e' ! (c - b) = t ! c"
    by (simp_all add: slice_def)
  moreover note this(2)
  ultimately have "t ! c \<in> set (slice t b e')" by (metis nth_mem)
  with dc price show ?thesis by auto
qed

lemma find_prices_at:
  "price \<in> set (find_prices dec t pos) \<Longrightarrow> \<exists>i e. (price, e) \<in> set (price_at dec t i)"
proof (induction dec t pos rule: find_prices.induct)
  case (1 dec t pos)
  show ?case
  proof (cases "price_at dec t pos")
    case Nil
    with "1.prems" have "length t \<ge> pos" "price \<in> set (find_prices dec t (Suc pos))"
      by (subst (asm) find_prices.simps, simp split: if_splits)+
    with Nil "1.IH"(1) show ?thesis by simp
  next
    case (Cons m ms)
    obtain price' e' where m: "m = (price', e')" by (cases m)
    from "1.prems" Cons m have le: "length t \<ge> pos"
      and mem: "price = price' \<or> price \<in> set (find_prices dec t e')"
      by (subst (asm) find_prices.simps, simp split: if_splits)+
    from mem show ?thesis
    proof
      assume "price = price'"
      with Cons m have "(price, e') \<in> set (price_at dec t pos)" by simp
      then show ?thesis by blast
    next
      assume "price \<in> set (find_prices dec t e')"
      with le Cons m "1.IH"(2) show ?thesis by simp
    qed
  qed
qed

lemma price_matches_separator:
  "price \<in> set (price_matches dec text) \<Longrightarrow> 46 \<in> set price \<or> 44 \<in> set price"
  unfolding price_matches_def by (blast dest: find_prices_at price_at_separator)

lemma not_found_chars: "46 \<notin> set not_found" "44 \<notin> set not_found"
  by (simp_all add: not_found_def ascii_def)

lemma replace_comma_chars:
  "44 \<notin> set (replace_comma s)"
  "46 \<in> set s \<or> 44 \<in> set s \<Longrightarrow> 46 \<in> set (replace_comma s)"
  by (auto simp: replace_comma_def)

lemma price_field_paired:
  assumes "i < length (price_matches dec text)"
  shows "price_field (price_matches dec text) i = 8364 # replace_comma (price_matches dec text ! i)"
proof -
  from assms have "price_matches dec text ! i \<in> set (price_matches dec text)" by simp
  then have "46 \<in> set (replace_comma (price_matches dec text ! i))"
    by (intro replace_comma_chars(2) price_matches_separator)
  with not_found_chars(1) have "replace_comma (price_matches dec text ! i) \<noteq> not_found"
    by metis
  with assms show ?thesis by (simp add: price_field_def)
qed

lemma price_field_missing:
  "length prices \<le> i \<Longrightarrow> price_field prices i = not_found"
  by (simp add: price_field_def)

lemma price_field_no_comma: "44 \<notin> set (price_field (price_matches dec text) i)"
proof (cases "i < length (price_matches dec text)")
  case True
  then show ?thesis by (simp add: price_field_paired replace_comma_chars)
next
  case False
  then show ?thesis by (simp add: price_field_missing not_found_chars)
qed

subsection \<open>The records of a page and of a document\<close>

lemma length_page_records:
  "length (page_records dec n text) = length (id_name_matches text)"
  by (simp add: page_records_def Let_def)

lemma nth_page_records:
  "i < length (id_name_matches text) \<Longrightarrow>
     page_records dec n text ! i =
       \<lparr>Page = n, ID = fst (id_name_matches text ! i),
        Name = strip (snd (id_name_matches text ! i)),
        Price = price_field (price_matches dec text) i\<rparr>"
  by (simp add: page_records_def Let_def nth_enumerate_eq case_prod_beta)

lemma page_records_page: "r \<in> set (page_records dec n text) \<Longrightarrow> Page r = n"
  by (auto simp: page_records_def Let_def)

lemma filter_page_records:
  "filter (\<lambda>r. Page r = j) (page_records dec n text) = (if j = n then page_records dec n text else [])"
  by (auto simp: filter_id_conv filter_empty_conv dest: page_records_page)

lemma filter_document:
  "filter (\<lambda>r. Page r = j) (concat (map (\<lambda>(k, t). page_records dec k t) (enumerate n texts)))
     = (if n \<le> j \<and> j < n + length texts then page_records dec j (texts ! (j - n)) else [])"
proof (induction texts arbitrary: n)
  case Nil
  show ?case by auto
next
  case (Cons t texts)
  show ?case
  proof (cases "j = n")
    case True
    with Cons.IH [of "Suc n"]
    have "filter (\<lambda>r. Page r = n)
        (concat (map (\<lambda>(k, t). page_records dec k t) (enumerate (Suc n) texts))) = []"
      by simp
    with True show ?thesis by (simp add: filter_page_records)
  next
    case False
    then show ?thesis by (auto simp: filter_page_records Cons Suc_diff_le nth_Cons')
  qed
qed

lemma pages_loop_members:
  "pages_loop dec n doc acc = Inr all \<Longrightarrow> r \<in> set all \<Longrightarrow>
     r \<in> set acc \<or> (\<exists>k text. r \<in> set (page_records dec k text))"
  by (induction dec n doc acc rule: pages_loop.induct) auto

lemma set_strip: "set (strip s) \<subseteq> set s"
proof -
  have "set (strip s) = set (dropWhile is_space (rev (dropWhile is_space s)))"
    by (simp add: strip_def rstrip_def lstrip_def)
  also have "\<dots> \<subseteq> set (rev (dropWhile is_space s))" by (auto dest: set_dropWhileD)
  also have "\<dots> \<subseteq> set s" by (auto dest: set_dropWhileD)
  finally show ?thesis .
qed

lemma page_records_name:
  assumes "r \<in> set (page_records dec n text)"
  shows "10 \<notin> set (Name r) \<and> 8364 \<notin> set (Name r)"
proof -
  from assms obtain pid name where m: "(pid, name) \<in> set (id_name_matches text)"
    and r: "Name r = strip name"
    by (auto simp: page_records_def Let_def enumerate_eq_zip dest: set_zip_rightD)
  from id_name_matches_name [OF m] have "\<forall>c\<in>set name. name_char c" by simp
  with set_strip [of name] r show ?thesis by (auto simp: name_char_def)
qed

subsection \<open>Pairing, names and prices\<close>

lemma two_rows_ids:
  "id_name_matches two_rows_text = [(ascii ''1.2'', ascii ''ab ''), (ascii ''3.4'', ascii ''c, d'')]"
  by (simp add: two_rows_text_def positions_ev regex_ev str_ev)

lemma two_rows_prices: "price_matches ascii_digit two_rows_text = [ascii ''3,5'']"
  by (simp add: two_rows_text_def positions_ev regex_ev str_ev)

lemma two_rows_records:
  "page_records ascii_digit n two_rows_text =
     [\<lparr>Page = n, ID = ascii ''1.2'', Name = ascii ''ab'', Price = 8364 # ascii ''3.5''\<rparr>,
      \<lparr>Page = n, ID = ascii ''3.4'', Name = ascii ''c, d'', Price = ascii ''Not found''\<rparr>]"
  by (simp add: page_records_def two_rows_ids two_rows_prices price_field_def not_found_def
      enumerate_eq_zip replace_comma_def str_ev)

lemma two_rows_run:
  "outcome (extract_product_data ascii_digit [Inr two_rows_text]) =
     Inr [\<lparr>Page = 1, ID = ascii ''1.2'', Name = ascii ''ab'', Price = 8364 # ascii ''3.5''\<rparr>,
          \<lparr>Page = 1, ID = ascii ''3.4'', Name = ascii ''c, d'', Price = ascii ''Not found''\<rparr>]"
  by (simp add: extract_product_data_def two_rows_records)

text \<open>
  Claim C1.  For a document whose pages can all be read and for its page number
  \<open>k + 1\<close>, with text \<open>texts ! k\<close>: the records of \<open>extract_product_data\<close> that carry
  this page number are as many as the identifier matches of the text and follow their
  order (the \<open>i\<close>-th has the identifier and the stripped name of the \<open>i\<close>-th match);
  where there is an \<open>i\<close>-th price match, the price of the \<open>i\<close>-th record is that match
  with the comma replaced by a full stop and the euro sign in front; from the number of
  price matches on, it is the text \<open>Not found\<close>.
\<close>

theorem index_pairing:
  assumes "k < length texts"
  shows "\<exists>all. outcome (extract_product_data dec (map Inr texts)) = Inr all \<and>
     (let recs = filter (\<lambda>r. Page r = Suc k) all;
          ids = id_name_matches (texts ! k);
          prices = price_matches dec (texts ! k)
      in length recs = length ids \<and>
         (\<forall>i<length ids. ID (recs ! i) = fst (ids ! i) \<and> Name (recs ! i) = strip (snd (ids ! i))) \<and>
         (\<forall>i. i < length ids \<and> i < length prices \<longrightarrow>
            Price (recs ! i) = 8364 # replace_comma (prices ! i)) \<and>
         (\<forall>i. length prices \<le> i \<and> i < length ids \<longrightarrow>
            Price (recs ! i) = ascii ''Not found''))"
proof -
  let ?all = "concat (map (\<lambda>(k, t). page_records dec k t) (enumerate 1 texts))"
  have run: "outcome (extract_product_data dec (map Inr texts)) = Inr ?all"
    by (simp add: extract_product_data_def pages_loop_readable)
  from assms have recs: "filter (\<lambda>r. Page r = Suc k) ?all = page_records dec (Suc k) (texts ! k)"
    by (simp add: filter_document)
  have "length (page_records dec (Suc k) (texts ! k)) = length (id_name_matches (texts ! k))"
    by (rule length_page_records)
  moreover have "\<forall>i<length (id_name_matches (texts ! k)).
      ID (page_records dec (Suc k) (texts ! k) ! i) = fst (id_name_matches (texts ! k) ! i) \<and>
      Name (page_records dec (Suc k) (texts ! k) ! i) = strip (snd (id_name_matches (texts ! k) ! i))"
    by (simp add: nth_page_records)
  moreover have "\<forall>i. i < length (id_name_matches (texts ! k)) \<and>
        i < length (price_matches dec (texts ! k)) \<longrightarrow>
      Price (page_records dec (Suc k) (texts ! k) ! i)
        = 8364 # replace_comma (price_matches dec (texts ! k) ! i)"
    by (simp add: nth_page_records price_field_paired)
  moreover have "\<forall>i. length (price_matches dec (texts ! k)) \<le> i \<and>
        i < length (id_name_matches (texts ! k)) \<longrightarrow>
      Price (page_records dec (Suc k) (texts ! k) ! i) = ascii ''Not found''"
    by (simp add: nth_page_records price_field_missing not_found_def)
  ultimately show ?thesis
    unfolding run recs [symmetric] Let_def by blast
qed

theorem index_pairing_witness:
  "length (id_name_matches two_rows_text) = 2
   \<and> length (price_matches ascii_digit two_rows_text) = 1
   \<and> outcome (extract_product_data ascii_digit (map Inr [two_rows_text])) =
       Inr [\<lparr>Page = 1, ID = ascii ''1.2'', Name = ascii ''ab'', Price = 8364 # ascii ''3.5''\<rparr>,
            \<lparr>Page = 1, ID = ascii ''3.4'', Name = ascii ''c, d'', Price = ascii ''Not found''\<rparr>]"
proof -
  have k: "0 < length [two_rows_text]" by simp
  from index_pairing [OF k, of ascii_digit] two_rows_run
  have "length (filter (\<lambda>r. Page r = Suc 0)
      [\<lparr>Page = 1, ID = ascii ''1.2'', Name = ascii ''ab'', Price = 8364 # ascii ''3.5''\<rparr>,
       \<lparr>Page = 1, ID = ascii ''3.4'', Name = ascii ''c, d'', Price = ascii ''Not found''\<rparr>])
      = length (id_name_matches two_rows_text)"
    by (simp add: Let_def)
  then have "length (id_name_matches two_rows_text) = 2" by simp
  with two_rows_prices two_rows_run show ?thesis by simp
qed

text \<open>
  Claim C3, as the source has it.  The name of a match is a non-empty run of characters
  none of which is a newline or the euro sign, so no name of a record holds either of
  them.  A comma does not end the run: names may hold commas.
\<close>

theorem name_terminators:
  "(\<forall>m\<in>set (id_name_matches text). snd m \<noteq> [] \<and> 10 \<notin> set (snd m) \<and> 8364 \<notin> set (snd m))
   \<and> (outcome (extract_product_data dec doc) = Inr all \<longrightarrow>
        (\<forall>r\<in>set all. 10 \<notin> set (Name r) \<and> 8364 \<notin> set (Name r)))"
proof (intro conjI ballI impI)
  fix m
  assume "m \<in> set (id_name_matches text)"
  then have "(fst m, snd m) \<in> set (id_name_matches text)" by simp
  from id_name_matches_name [OF this]
  show "snd m \<noteq> []" "10 \<notin> set (snd m)" "8364 \<notin> set (snd m)"
    by (auto simp: name_char_def)
next
  fix r
  assume "outcome (extract_product_data dec doc) = Inr all" and r: "r \<in> set all"
  then have "pages_loop dec 1 doc [] = Inr all" by (simp add: extract_product_data_def)
  from pages_loop_members [OF this r]
  obtain k t where "r \<in> set (page_records dec k t)" by auto
  from page_records_name [OF this]
  show "10 \<notin> set (Name r)" "8364 \<notin> set (Name r)" by simp_all
qed

theorem name_terminators_witness:
  "map Name (page_records ascii_digit 1 two_rows_text) = [ascii ''ab'', ascii ''c, d'']
   \<and> 10 \<notin> set (ascii ''c, d'') \<and> 8364 \<notin> set (ascii ''c, d'')"
proof -
  have "\<lparr>Page = 1, ID = ascii ''3.4'', Name = ascii ''c, d'', Price = ascii ''Not found''\<rparr>
      \<in> set [\<lparr>Page = 1, ID = ascii ''1.2'', Name = ascii ''ab'', Price = 8364 # ascii ''3.5''\<rparr>,
             \<lparr>Page = 1, ID = ascii ''3.4'', Name = ascii ''c, d'', Price = ascii ''Not found''\<rparr>]"
    by simp
  with name_terminators [of two_rows_text ascii_digit "[Inr two_rows_text]"
      "[\<lparr>Page = 1, ID = ascii ''1.2'', Name = ascii ''ab'', Price = 8364 # ascii ''3.5''\<rparr>,
        \<lparr>Page = 1, ID = ascii ''3.4'', Name = ascii ''c, d'', Price = ascii ''Not found''\<rparr>]"]
    two_rows_run
  have "10 \<notin> set (ascii ''c, d'') \<and> 8364 \<notin> set (ascii ''c, d'')" by simp
  then show ?thesis by (simp add: two_rows_records)
qed

theorem name_terminators_counterexample:
  "outcome (extract_product_data ascii_digit [Inr two_rows_text]) =
     Inr [\<lparr>Page = 1, ID = ascii ''1.2'', Name = ascii ''ab'', Price = 8364 # ascii ''3.5''\<rparr>,
          \<lparr>Page = 1, ID = ascii ''3.4'', Name = ascii ''c, d'', Price = ascii ''Not found''\<rparr>]
   \<and> 44 \<in> set (ascii ''c, d'')"
  by (simp add: two_rows_run ascii_def)

text \<open>
  Claim C5, as the source has it.  Replacing the comma is idempotent and leaves no
  comma; it sends both \<open>19,99\<close> and \<open>19.99\<close> to \<open>19.99\<close>; and no price of a record
  of \<open>extract_product_data\<close> holds a comma.  The field sub-parser
  \<open>parse_product_text\<close> keeps the first amount found behind the bar as it stands in
  the text: it replaces nothing.
\<close>

theorem decimal_normalization:
  "replace_comma (replace_comma s) = replace_comma s
   \<and> 44 \<notin> set (replace_comma s)
   \<and> replace_comma (ascii ''19,99'') = ascii ''19.99''
   \<and> replace_comma (ascii ''19.99'') = ascii ''19.99''
   \<and> (\<forall>r\<in>set (page_records dec n text). 44 \<notin> set (Price r))
   \<and> (\<forall>pd. parse_product_text dec text_chunk n = Some pd \<longrightarrow>
        info_price pd =
          (case search_amount dec (strip (drop 1 (dropWhile (\<lambda>c. c \<noteq> 124) text_chunk))) of
             Some g \<Rightarrow> g | None \<Rightarrow> []))"
proof (intro conjI ballI allI impI)
  show "replace_comma (replace_comma s) = replace_comma s"
    by (simp add: replace_comma_def)
  show "44 \<notin> set (replace_comma s)" by (rule replace_comma_chars)
  show "replace_comma (ascii ''19,99'') = ascii ''19.99''"
    and "replace_comma (ascii ''19.99'') = ascii ''19.99''"
    by (simp_all add: replace_comma_def ascii_def)
next
  fix r
  assume "r \<in> set (page_records dec n text)"
  then obtain i where "i < length (page_records dec n text)" "r = page_records dec n text ! i"
    by (auto simp: in_set_conv_nth)
  then show "44 \<notin> set (Price r)"
    by (simp add: length_page_records nth_page_records price_field_no_comma)
next
  fix pd
  assume "parse_product_text dec text_chunk n = Some pd"
  then show "info_price pd =
          (case search_amount dec (strip (drop 1 (dropWhile (\<lambda>c. c \<noteq> 124) text_chunk))) of
             Some g \<Rightarrow> g | None \<Rightarrow> [])"
    by (auto simp: parse_product_text_def Let_def split: if_splits)
qed

theorem decimal_normalization_witness:
  "map Price (page_records ascii_digit 1 two_rows_text) = [8364 # ascii ''3.5'', ascii ''Not found'']
   \<and> 44 \<notin> set (8364 # ascii ''3.5'')"
proof -
  have "\<lparr>Page = 1, ID = ascii ''1.2'', Name = ascii ''ab'', Price = 8364 # ascii ''3.5''\<rparr>
      \<in> set (page_records ascii_digit 1 two_rows_text)"
    by (simp add: two_rows_records)
  with decimal_normalization [of "[]" ascii_digit 1 two_rows_text "[]"]
  have "44 \<notin> set (8364 # ascii ''3.5'')" by fastforce
  then show ?thesis by (simp add: two_rows_records)
qed

theorem decimal_normalization_counterexample:
  "parse_product_text ascii_digit priced_text 1 =
     Some \<lparr>info_page = 1, info_id = ascii ''1.2'', info_price = ascii ''3,5'',
            info_full_text = priced_text\<rparr>
   \<and> 44 \<in> set (ascii ''3,5'')"
  by (simp add: priced_text_def info_ev regex_ev str_ev)

subsection \<open>Cleaning the names\<close>

lemma collapse_spaces_blank:
  "c \<in> set (collapse_spaces s) \<Longrightarrow> is_space c \<Longrightarrow> c = 32"
  by (induction s rule: collapse_spaces.induct) (auto split: if_splits)

lemma join_lines_id:
  "(\<forall>c\<in>set s. is_space c \<longrightarrow> c \<noteq> 10) \<Longrightarrow> join_lines s = s"
proof (induction s rule: join_lines.induct)
  case 1
  show ?case by simp
next
  case (2 c cs)
  show ?case
  proof (cases "is_space c")
    case False
    with 2 show ?thesis by simp
  next
    case True
    have run: "10 \<notin> set (c # takeWhile is_space cs)"
    proof
      assume "10 \<in> set (c # takeWhile is_space cs)"
      then have "10 \<in> set (c # cs) \<and> is_space 10"
        by (auto simp: is_space_def dest: set_takeWhileD)
      with "2.prems" show False by blast
    qed
    have "\<forall>x\<in>set (dropWhile is_space cs). is_space x \<longrightarrow> x \<noteq> 10"
      using "2.prems" by (auto dest: set_dropWhileD)
    with "2.IH"(2) True run have "join_lines (dropWhile is_space cs) = dropWhile is_space cs"
      by simp
    with True run show ?thesis by simp
  qed
qed

lemma join_lines_collapse: "join_lines (collapse_spaces s) = collapse_spaces s"
proof (rule join_lines_id, intro ballI impI)
  fix c
  assume "c \<in> set (collapse_spaces s)" "is_space c"
  then have "c = 32" by (rule collapse_spaces_blank)
  then show "c \<noteq> 10" by simp
qed

lemma rstrip_Nil_iff: "rstrip s = [] \<longleftrightarrow> (\<forall>c\<in>set s. is_space c)"
  by (simp add: rstrip_def dropWhile_eq_Nil_conv)

lemma rstrip_Cons:
  "rstrip (c # cs) = (if is_space c \<and> rstrip cs = [] then [] else c # rstrip cs)"
proof (cases "\<forall>x\<in>set cs. is_space x")
  case True
  then have "rstrip cs = []" by (simp add: rstrip_Nil_iff)
  with True show ?thesis by (simp add: rstrip_def dropWhile_append)
next
  case False
  then have "rstrip cs \<noteq> []" by (simp add: rstrip_Nil_iff)
  with False show ?thesis by (simp add: rstrip_def dropWhile_append)
qed

lemma rstrip_dropWhile: "length (rstrip (dropWhile is_space s)) \<le> length (rstrip s)"
  by (induction s) (auto simp: rstrip_Cons rstrip_Nil_iff dest: set_dropWhileD)

lemma is_space_blank: "is_space 32"
  by (simp add: is_space_def)

lemma rstrip_Nil: "rstrip [] = []"
  by (simp add: rstrip_def)

lemma collapse_spaces_lstrip:
  "dropWhile is_space (collapse_spaces s) = collapse_spaces (dropWhile is_space s)"
proof (cases s)
  case Nil
  then show ?thesis by simp
next
  case (Cons c cs)
  have start: "dropWhile is_space (collapse_spaces z) = collapse_spaces z"
    if "z = [] \<or> \<not> is_space (hd z)" for z
    using that by (cases z) auto
  show ?thesis
  proof (cases "is_space c")
    case False
    with Cons show ?thesis by simp
  next
    case True
    have "dropWhile is_space cs = [] \<or> \<not> is_space (hd (dropWhile is_space cs))"
      by (metis hd_dropWhile)
    from start [OF this] Cons True show ?thesis by (simp add: is_space_def)
  qed
qed

lemma rstrip_collapse: "length (rstrip (collapse_spaces s)) \<le> length (rstrip s)"
proof (induction s rule: collapse_spaces.induct)
  case 1
  show ?case by simp
next
  case (2 c cs)
  show ?case
  proof (cases "is_space c")
    case False
    with 2 show ?thesis by (simp add: rstrip_Cons)
  next
    case True
    note sp = True
    show ?thesis
    proof (cases "rstrip cs = []")
      case True
      then have "dropWhile is_space cs = []"
        by (simp add: rstrip_Nil_iff dropWhile_eq_Nil_conv)
      then have empty: "collapse_spaces (dropWhile is_space cs) = []"
        by (simp only: collapse_spaces.simps)
      from sp True show ?thesis by (simp add: rstrip_Cons rstrip_Nil is_space_blank empty)
    next
      case False
      from "2.IH"(1) [OF sp]
      have "length (rstrip (collapse_spaces (dropWhile is_space cs)))
          \<le> length (rstrip (dropWhile is_space cs))" .
      also have "\<dots> \<le> length (rstrip cs)" by (rule rstrip_dropWhile)
      finally have "length (rstrip (32 # collapse_spaces (dropWhile is_space cs)))
          \<le> Suc (length (rstrip cs))"
        by (simp add: rstrip_Cons)
      with sp False show ?thesis by (simp add: rstrip_Cons)
    qed
  qed
qed

lemma length_clean_product_name:
  "length (clean_product_name name) \<le> length (strip name)"
proof -
  have "clean_product_name name = rstrip (collapse_spaces (dropWhile is_space name))"
    by (simp add: clean_product_name_def join_lines_collapse strip_def lstrip_def
        collapse_spaces_lstrip)
  then show ?thesis by (simp add: strip_def lstrip_def rstrip_collapse)
qed

lemma gap_script:
  "script ascii_digit [Inr gap_text] =
     Inr [Print_heading,
          Print_row \<lparr>Page = 1, ID = ascii ''1.2'', Name = ascii ''a b'', Price = ascii ''Not found''\<rparr>,
          Write_csv (ascii ''product_prices_accurate.csv'')
            [\<lparr>Page = 1, ID = ascii ''1.2'', Name = ascii ''a b'', Price = ascii ''Not found''\<rparr>],
          Print_total 1, Print_saved]"
  by (simp add: gap_text_def script_def cleaned_products_def clean_product_name_def
      positions_ev regex_ev str_ev)

text \<open>
  Claim C6, as the source has it.  A record is kept exactly when its name, with the
  whitespace at both ends removed, is longer than 3: the list of kept records is the list
  of the records that pass this test, in their order and each with its name cleaned, so
  every record that passes is kept, every kept record comes from one that passes, and the
  records left out are as many as those whose stripped name has 3 characters or fewer.
  The test is made before the runs of whitespace inside the name are collapsed.  The
  cleaned name is never longer than the stripped one, so every name whose cleaned form has
  4 characters or more is kept.
\<close>

theorem name_length_filter:
  "length (clean_product_name name) \<le> length (strip name)
   \<and> (\<forall>p\<in>set products. 4 \<le> length (clean_product_name (Name p)) \<longrightarrow>
        p\<lparr>Name := clean_product_name (Name p)\<rparr> \<in> set (cleaned_products products))
   \<and> (\<forall>q\<in>set (cleaned_products products).
        \<exists>p\<in>set products. q = p\<lparr>Name := clean_product_name (Name p)\<rparr> \<and>
          3 < length (strip (Name p)))
   \<and> (\<forall>p\<in>set products. 3 < length (strip (Name p)) \<longrightarrow>
        p\<lparr>Name := clean_product_name (Name p)\<rparr> \<in> set (cleaned_products products))
   \<and> cleaned_products products =
        map (\<lambda>p. p\<lparr>Name := clean_product_name (Name p)\<rparr>)
          (filter (\<lambda>p. 3 < length (strip (Name p))) products)
   \<and> length (cleaned_products products)
        + length (filter (\<lambda>p. length (strip (Name p)) \<le> 3) products) = length products"
proof (intro conjI ballI impI)
  show "length (clean_product_name name) \<le> length (strip name)"
    by (rule length_clean_product_name)
next
  fix p
  assume p: "p \<in> set products" and "4 \<le> length (clean_product_name (Name p))"
  with length_clean_product_name [of "Name p"] have "3 < length (strip (Name p))" by simp
  with p show "p\<lparr>Name := clean_product_name (Name p)\<rparr> \<in> set (cleaned_products products)"
    by (auto simp: cleaned_products_def)
next
  fix q
  assume "q \<in> set (cleaned_products products)"
  then show "\<exists>p\<in>set products. q = p\<lparr>Name := clean_product_name (Name p)\<rparr> \<and>
          3 < length (strip (Name p))"
    by (auto simp: cleaned_products_def)
next
  fix p
  assume "p \<in> set products" and "3 < length (strip (Name p))"
  then show "p\<lparr>Name := clean_product_name (Name p)\<rparr> \<in> set (cleaned_products products)"
    by (auto simp: cleaned_products_def)
next
  show "cleaned_products products =
        map (\<lambda>p. p\<lparr>Name := clean_product_name (Name p)\<rparr>)
          (filter (\<lambda>p. 3 < length (strip (Name p))) products)"
    by (simp add: cleaned_products_def)
next
  from sum_length_filter_compl [of "\<lambda>p. 3 < length (strip (Name p))" products]
  show "length (cleaned_products products)
      + length (filter (\<lambda>p. length (strip (Name p)) \<le> 3) products) = length products"
    by (simp add: cleaned_products_def not_less)
qed

theorem name_length_filter_witness:
  "\<lparr>Page = 1, ID = ascii ''3.4'', Name = ascii ''a b'', Price = ascii ''Not found''\<rparr>
     \<in> set (cleaned_products
         [\<lparr>Page = 1, ID = ascii ''1.2'', Name = ascii ''ab'', Price = 8364 # ascii ''3.5''\<rparr>,
          \<lparr>Page = 1, ID = ascii ''3.4'', Name = ascii ''a   b'', Price = ascii ''Not found''\<rparr>,
          \<lparr>Page = 2, ID = ascii ''5.6'', Name = ascii ''c, d'', Price = ascii ''Not found''\<rparr>])
   \<and> cleaned_products
     [\<lparr>Page = 1, ID = ascii ''1.2'', Name = ascii ''ab'', Price = 8364 # ascii ''3.5''\<rparr>,
      \<lparr>Page = 1, ID = ascii ''3.4'', Name = ascii ''a   b'', Price = ascii ''Not found''\<rparr>,
      \<lparr>Page = 2, ID = ascii ''5.6'', Name = ascii ''c, d'', Price = ascii ''Not found''\<rparr>]
   = [\<lparr>Page = 1, ID = ascii ''3.4'', Name = ascii ''a b'', Price = ascii ''Not found''\<rparr>,
      \<lparr>Page = 2, ID = ascii ''5.6'', Name = ascii ''c, d'', Price = ascii ''Not found''\<rparr>]
   \<and> length (strip (ascii ''ab'')) = 2
   \<and> length (strip (ascii ''a   b'')) = 5
   \<and> length (clean_product_name (ascii ''a   b'')) = 3
   \<and> length (clean_product_name (ascii ''c, d'')) = 4"
proof -
  let ?short = "\<lparr>Page = 1, ID = ascii ''1.2'', Name = ascii ''ab'', Price = 8364 # ascii ''3.5''\<rparr>"
  let ?gap = "\<lparr>Page = 1, ID = ascii ''3.4'', Name = ascii ''a   b'', Price = ascii ''Not found''\<rparr>"
  let ?long = "\<lparr>Page = 2, ID = ascii ''5.6'', Name = ascii ''c, d'', Price = ascii ''Not found''\<rparr>"
  let ?gap' = "\<lparr>Page = 1, ID = ascii ''3.4'', Name = ascii ''a b'', Price = ascii ''Not found''\<rparr>"
  have short: "length (strip (ascii ''ab'')) = 2"
    and gap: "length (strip (ascii ''a   b'')) = 5"
    and long: "length (strip (ascii ''c, d'')) = 4"
    by (simp_all add: str_ev)
  have clean_gap: "clean_product_name (ascii ''a   b'') = ascii ''a b''"
    and clean_long: "clean_product_name (ascii ''c, d'') = ascii ''c, d''"
    by (simp_all add: clean_product_name_def str_ev)
  have lens: "length (ascii ''a b'') = 3" "length (ascii ''c, d'') = 4"
    by (simp_all add: ascii_def)
  note filter = name_length_filter [of "ascii ''a   b''" "[?short, ?gap, ?long]"]
  from gap have "?gap \<in> set [?short, ?gap, ?long] \<and> 3 < length (strip (Name ?gap))" by simp
  with filter have "?gap\<lparr>Name := clean_product_name (Name ?gap)\<rparr>
      \<in> set (cleaned_products [?short, ?gap, ?long])"
    by blast
  with clean_gap have kept: "?gap' \<in> set (cleaned_products [?short, ?gap, ?long])" by simp
  from filter have "cleaned_products [?short, ?gap, ?long] =
      map (\<lambda>p. p\<lparr>Name := clean_product_name (Name p)\<rparr>)
        (filter (\<lambda>p. 3 < length (strip (Name p))) [?short, ?gap, ?long])"
    by blast
  with short gap long clean_gap clean_long
  have "cleaned_products [?short, ?gap, ?long] = [?gap', ?long]" by simp
  with kept short gap clean_gap clean_long lens show ?thesis by simp
qed

theorem name_length_filter_counterexample:
  "script ascii_digit [Inr gap_text] =
     Inr [Print_heading,
          Print_row \<lparr>Page = 1, ID = ascii ''1.2'', Name = ascii ''a b'', Price = ascii ''Not found''\<rparr>,
          Write_csv (ascii ''product_prices_accurate.csv'')
            [\<lparr>Page = 1, ID = ascii ''1.2'', Name = ascii ''a b'', Price = ascii ''Not found''\<rparr>],
          Print_total 1, Print_saved]
   \<and> length (ascii ''a b'') = 3"
  by (simp add: gap_script ascii_def)

end
